theory Spec2Isabelle
  imports Complex_Main "HOL-Library.AList"
begin

section \<open>Symbol table (uc\_sema.py, class SymbolTable)\<close>

text \<open>
  The Python class is a dict from names to nested pairs \<open>(value, previous)\<close>, a second
  dict \<open>args\<close> of nested pairs \<open>(args, previous)\<close> and a list \<open>scope\<close> of name lists.
  Every read of the dicts goes through \<open>get(name, None)\<close>, so a missing key and a key
  bound to \<open>None\<close> are the same observation: both are \<open>None\<close> of the map here.
  An index into an empty \<open>scope\<close> raises IndexError in Python: the result \<open>None\<close> of
  the operations below.
\<close>

datatype 'v binding = Binding 'v "'v binding option"

record ('v, 'a) SymbolTable =
  table :: "string \<Rightarrow> 'v binding option"
  args :: "string \<Rightarrow> 'a option binding option"
  scope :: "string list list"

definition SymbolTable_init :: "('v, 'a) SymbolTable" where
  "SymbolTable_init = \<lparr>table = (\<lambda>_. None), args = (\<lambda>_. None), scope = []\<rparr>"

text \<open>Python list index: a negative index counts from the end.\<close>

definition py_index :: "nat \<Rightarrow> int \<Rightarrow> nat option" where
  "py_index n i =
     (let j = (if i < 0 then int n + i else i)
      in if 0 \<le> j \<and> j < int n then Some (nat j) else None)"

definition add :: "string \<Rightarrow> 'v \<Rightarrow> 'a option \<Rightarrow> int \<Rightarrow> ('v, 'a) SymbolTable \<Rightarrow> ('v, 'a) SymbolTable option" where
  "add name val ar scp st =
     (case py_index (length (scope st)) scp of
        None \<Rightarrow> None
      | Some k \<Rightarrow> Some (st\<lparr>table := (table st)(name \<mapsto> Binding val (table st name)),
                            args := (args st)(name \<mapsto> Binding ar (args st name)),
                            scope := (scope st)[k := (scope st ! k) @ [name]]\<rparr>))"

definition lookup :: "string \<Rightarrow> ('v, 'a) SymbolTable \<Rightarrow> 'v option" where
  "lookup name st = (case table st name of Some (Binding v _) \<Rightarrow> Some v | None \<Rightarrow> None)"

text \<open>\<open>lookup_args\<close> returns \<open>args[0]\<close>, which is \<open>None\<close> for a binding added without arguments.\<close>

definition lookup_args :: "string \<Rightarrow> ('v, 'a) SymbolTable \<Rightarrow> 'a option" where
  "lookup_args name st = (case args st name of Some (Binding a _) \<Rightarrow> a | None \<Rightarrow> None)"

definition remove_name :: "string \<Rightarrow> ('v, 'a) SymbolTable \<Rightarrow> ('v, 'a) SymbolTable" where
  "remove_name name st =
     (let st1 = (case table st name of
                   Some (Binding _ prev) \<Rightarrow> st\<lparr>table := (table st)(name := prev)\<rparr>
                 | None \<Rightarrow> st)
      in (case args st1 name of
            Some (Binding _ prev) \<Rightarrow> st1\<lparr>args := (args st1)(name := prev)\<rparr>
          | None \<Rightarrow> st1))"

definition beginscope :: "('v, 'a) SymbolTable \<Rightarrow> ('v, 'a) SymbolTable" where
  "beginscope st = st\<lparr>scope := scope st @ [[]]\<rparr>"

definition endscope :: "('v, 'a) SymbolTable \<Rightarrow> ('v, 'a) SymbolTable option" where
  "endscope st =
     (if scope st = [] then None
      else Some ((fold remove_name (last (scope st)) st)\<lparr>scope := butlast (scope st)\<rparr>))"

definition declared :: "string \<Rightarrow> ('v, 'a) SymbolTable \<Rightarrow> int option" where
  "declared name st =
     (if scope st = [] then None
      else if name \<in> set (last (scope st)) \<and> table st name \<noteq> None then Some (- 2)
      else if table st name \<noteq> None then Some (- 1)
      else Some 0)"

text \<open>
  The states a compilation can reach: the empty table, and whatever the four mutating
  methods make of a reachable state (\<open>add\<close> is called with \<open>scp = -1\<close> or \<open>scp = -2\<close>).
\<close>

inductive reachable :: "('v, 'a) SymbolTable \<Rightarrow> bool" where
  reach_init: "reachable SymbolTable_init"
| reach_begin: "reachable st \<Longrightarrow> reachable (beginscope st)"
| reach_add: "reachable st \<Longrightarrow> add name val ar scp st = Some st' \<Longrightarrow> reachable st'"
| reach_end: "reachable st \<Longrightarrow> endscope st = Some st' \<Longrightarrow> reachable st'"

text \<open>The number of live bindings of a name: the depth of its chain of nested pairs.\<close>

fun depth :: "'v binding \<Rightarrow> nat" where
  "depth (Binding _ None) = 1"
| "depth (Binding _ (Some b)) = Suc (depth b)"

definition depth_opt :: "'v binding option \<Rightarrow> nat" where
  "depth_opt b = (case b of None \<Rightarrow> 0 | Some c \<Rightarrow> depth c)"

definition scopes_agree :: "('v, 'a) SymbolTable \<Rightarrow> bool" where
  "scopes_agree st \<longleftrightarrow>
     (\<forall>n. depth_opt (table st n) = count_list (concat (scope st)) n)"

definition example_symtab :: "(nat, nat) SymbolTable" where
  "example_symtab =
     \<lparr>table = (\<lambda>_. None)(''x'' \<mapsto> Binding 1 None, ''y'' \<mapsto> Binding 2 None),
      args = (\<lambda>_. None)(''x'' \<mapsto> Binding None None, ''y'' \<mapsto> Binding None None),
      scope = [[''x''], [''y'']]\<rparr>"

section \<open>uCIR instructions and blocks (uc\_block.py)\<close>

text \<open>
  An instruction is a Python tuple \<open>(opcode, operand1, ...)\<close>: the opcode string and the
  list of the remaining components, so that \<open>inst[0]\<close> is \<open>fst inst\<close> and \<open>inst[k]\<close>, for
  \<open>k \<ge> 1\<close>, is \<open>arg inst k\<close> (\<open>None\<close> where Python raises IndexError). An operand is a
  string (a name, a label or a character value), an integer, a float (by its real
  value), a nested list (an aggregate initialiser) or the parameter list of \<open>define\<close>.
\<close>

datatype operand =
    VStr string
  | VInt int
  | VFlt real
  | VList "operand list"
  | VParams "(string \<times> string) list"

type_synonym inst = "string \<times> operand list"

definition arg :: "inst \<Rightarrow> nat \<Rightarrow> operand option" where
  "arg i k = (if 1 \<le> k \<and> k \<le> length (snd i) then Some (snd i ! (k - 1)) else None)"

text \<open>
  An operand read as a variable name is a string in every instruction the generator
  emits; the model gives \<open>None\<close>, as for a Python exception, where it is not.
\<close>

definition name_arg :: "inst \<Rightarrow> nat \<Rightarrow> string option" where
  "name_arg i k = (case arg i k of Some (VStr s) \<Rightarrow> Some s | _ \<Rightarrow> None)"

definition startswith :: "string \<Rightarrow> string \<Rightarrow> bool" where
  "startswith s p \<longleftrightarrow> take (length p) s = p"

text \<open>Python's \<open>==\<close> on operand values: numbers compare by value across \<open>int\<close> and \<open>float\<close>.\<close>

fun py_eq :: "operand \<Rightarrow> operand \<Rightarrow> bool" where
  "py_eq (VStr a) (VStr b) = (a = b)"
| "py_eq (VInt a) (VInt b) = (a = b)"
| "py_eq (VInt a) (VFlt b) = (of_int a = b)"
| "py_eq (VFlt a) (VInt b) = (a = of_int b)"
| "py_eq (VFlt a) (VFlt b) = (a = b)"
| "py_eq (VList a) (VList b) = list_all2 py_eq a b"
| "py_eq (VParams a) (VParams b) = (a = b)"
| "py_eq _ _ = False"

text \<open>\<open>type(v).__name__\<close> of an operand value.\<close>

fun type_name :: "operand \<Rightarrow> string" where
  "type_name (VStr _) = ''str''"
| "type_name (VInt _) = ''int''"
| "type_name (VFlt _) = ''float''"
| "type_name (VList _) = ''list''"
| "type_name (VParams _) = ''list''"

datatype block_kind = BasicBlock | ConditionBlock

text \<open>
  A block object. \<open>bid\<close> stands for the identity of the Python object: the links
  \<open>predecessors\<close>, \<open>branch\<close>, \<open>taken\<close> and \<open>fall_through\<close> hold identities. The link
  \<open>next_block\<close> is the position in a list of blocks: a control-flow graph is the list of
  its blocks in \<open>next_block\<close> order. \<open>numerated_code\<close> is a dict from index to instruction,
  kept in insertion order.
\<close>

record block =
  bid :: nat
  label :: string
  kind :: block_kind
  instructions :: "inst list"
  predecessors :: "nat list"
  branch :: "nat option"
  taken :: "nat option"
  fall_through :: "nat option"
  numerated_code :: "(nat \<times> inst) list"
  gen_defs :: "nat list"
  kill_defs :: "nat list"
  in_RD :: "nat list"
  out_RD :: "nat list"
  used :: "string list"
  defined :: "string list"
  in_set :: "string list"
  out_set :: "string list"

definition new_block :: "block_kind \<Rightarrow> nat \<Rightarrow> string \<Rightarrow> block" where
  "new_block k i l =
     \<lparr>bid = i, label = l, kind = k, instructions = [], predecessors = [],
      branch = None, taken = None, fall_through = None, numerated_code = [],
      gen_defs = [], kill_defs = [], in_RD = [], out_RD = [],
      used = [], defined = [], in_set = [], out_set = []\<rparr>"

text \<open>\<open>EmitBlocks.visit\<close>: the instructions of the blocks, in \<open>next_block\<close> order.\<close>

definition EmitBlocks :: "block list \<Rightarrow> inst list" where
  "EmitBlocks bs = concat (map instructions bs)"

section \<open>Dataflow analyser (uc\_analysis.py, class DataFlow)\<close>

definition binary_ops :: "string list" where
  "binary_ops = [''add_'', ''sub_'', ''mul_'', ''div_'', ''mod_'', ''lt_'', ''le_'',
                 ''gt_'', ''ge_'', ''eq_'', ''and_'', ''or_'', ''ne_'']"

definition is_binop :: "string \<Rightarrow> bool" where
  "is_binop opc \<longleftrightarrow> (\<exists>b \<in> set binary_ops. startswith opc b)"

text \<open>\<open>self.defs\<close>: a dict from variable name to the list of defining indices.\<close>

type_synonym defs_map = "(string \<times> nat list) list"

definition add_to_defs :: "string \<Rightarrow> nat \<Rightarrow> defs_map \<Rightarrow> defs_map" where
  "add_to_defs variable index defs =
     (case map_of defs variable of
        None \<Rightarrow> AList.update variable [index] defs
      | Some l \<Rightarrow> AList.update variable (l @ [index]) defs)"

text \<open>
  The body of the \<open>for inst in bb.instructions\<close> loop of \<open>number_instructions\<close>, without
  the two dict stores and the increment: the \<open>if/elif\<close> chain, then the loop over
  \<open>binary_ops\<close>, which runs for every instruction.
\<close>

definition defs_chain :: "inst \<Rightarrow> nat \<Rightarrow> defs_map \<Rightarrow> defs_map option" where
  "defs_chain i index defs =
     (let opc = fst i in
      if startswith opc ''literal'' \<or> startswith opc ''store'' \<or> startswith opc ''load''
         \<or> startswith opc ''call'' \<or> startswith opc ''not_'' \<or> startswith opc ''sitofp''
         \<or> startswith opc ''fptosi''
      then map_option (\<lambda>v. add_to_defs v index defs) (name_arg i 2)
      else if startswith opc ''elem''
      then map_option (\<lambda>v. add_to_defs v index defs) (name_arg i 3)
      else if startswith opc ''define''
      then (case arg i 2 of
              Some (VParams ps) \<Rightarrow> Some (fold (\<lambda>p d. add_to_defs (snd p) index d) ps defs)
            | _ \<Rightarrow> None)
      else Some defs)"

definition defs_binops :: "inst \<Rightarrow> nat \<Rightarrow> defs_map \<Rightarrow> defs_map option" where
  "defs_binops i index defs =
     fold (\<lambda>b r. case r of
                    None \<Rightarrow> None
                  | Some d \<Rightarrow> if startswith (fst i) b
                              then map_option (\<lambda>v. add_to_defs v index d) (name_arg i 3)
                              else Some d)
          binary_ops (Some defs)"

definition defs_inst :: "inst \<Rightarrow> nat \<Rightarrow> defs_map \<Rightarrow> defs_map option" where
  "defs_inst i index defs =
     (case defs_chain i index defs of None \<Rightarrow> None | Some d \<Rightarrow> defs_binops i index d)"

text \<open>
  The analyser's fields that the numbering and the later passes share:
  \<open>self.labeled_code\<close> (a dict in insertion order), \<open>self.defs\<close>, \<open>self.index\<close>.
\<close>

record numbering =
  labeled_code :: "(nat \<times> inst) list"
  defs :: defs_map
  index :: nat

text \<open>The inner loop of \<open>number_instructions\<close> over one block's instructions.\<close>

fun number_block :: "inst list \<Rightarrow> block \<Rightarrow> numbering \<Rightarrow> (block \<times> numbering) option" where
  "number_block [] bb st = Some (bb, st)"
| "number_block (i # is) bb st =
     (case defs_inst i (index st) (defs st) of
        None \<Rightarrow> None
      | Some d \<Rightarrow>
          number_block is
            (bb\<lparr>numerated_code := AList.update (index st) i (numerated_code bb)\<rparr>)
            (st\<lparr>labeled_code := AList.update (index st) i (labeled_code st),
                defs := d, index := index st + 1\<rparr>))"

text \<open>The outer \<open>while bb is not None\<close> loop, over the blocks in \<open>next_block\<close> order.\<close>

fun number_blocks :: "block list \<Rightarrow> numbering \<Rightarrow> (block list \<times> numbering) option" where
  "number_blocks [] st = Some ([], st)"
| "number_blocks (bb # bbs) st =
     (case number_block (instructions bb) bb st of
        None \<Rightarrow> None
      | Some (bb', st') \<Rightarrow>
          (case number_blocks bbs st' of
             None \<Rightarrow> None
           | Some (bbs', st'') \<Rightarrow> Some (bb' # bbs', st'')))"

text \<open>
  \<open>number_instructions\<close> resets \<open>labeled_code\<close> and \<open>index\<close>; \<open>self.defs\<close> is what the
  caller left there (\<open>visit_Program\<close> empties it first).
\<close>

definition number_instructions :: "defs_map \<Rightarrow> block list \<Rightarrow> (block list \<times> numbering) option" where
  "number_instructions defs0 cfg =
     number_blocks cfg \<lparr>labeled_code = [], defs = defs0, index = 1\<rparr>"

text \<open>
  \<open>inst_kill = self.defs[inst[k]].copy(); inst_kill.remove(index)\<close>: KeyError where the
  name has no entry, ValueError where the index is not in the list.
\<close>

definition gen_kill_at :: "defs_map \<Rightarrow> inst \<Rightarrow> nat \<Rightarrow> nat \<Rightarrow> (nat list \<times> nat list) option" where
  "gen_kill_at dm i k idx =
     (case name_arg i k of
        None \<Rightarrow> None
      | Some v \<Rightarrow>
          (case map_of dm v of
             None \<Rightarrow> None
           | Some l \<Rightarrow> if idx \<in> set l then Some ([idx], remove1 idx l) else None))"

definition instruction_gen_kill :: "defs_map \<Rightarrow> inst \<Rightarrow> nat \<Rightarrow> (nat list \<times> nat list) option" where
  "instruction_gen_kill dm i idx =
     (let opc = fst i;
          r1 = (if startswith opc ''store'' \<or> startswith opc ''literal'' \<or> startswith opc ''load''
                   \<or> startswith opc ''call'' \<or> startswith opc ''not_'' \<or> startswith opc ''sitofp''
                   \<or> startswith opc ''fptosi''
                then gen_kill_at dm i 2 idx
                else Some ([], []))
      in fold (\<lambda>b r. case r of
                        None \<Rightarrow> None
                      | Some gk \<Rightarrow> if startswith opc b then gen_kill_at dm i 3 idx else Some gk)
              binary_ops r1)"

text \<open>
  The opcodes of the \<open>if/elif\<close> chain of \<open>instruction_gen_kill\<close>, whose target is
  \<open>inst[2]\<close>; the target of a binary operation is \<open>inst[3]\<close>.
\<close>

definition chain_op :: "string \<Rightarrow> bool" where
  "chain_op opc \<longleftrightarrow>
     startswith opc ''store'' \<or> startswith opc ''literal'' \<or> startswith opc ''load''
     \<or> startswith opc ''call'' \<or> startswith opc ''not_'' \<or> startswith opc ''sitofp''
     \<or> startswith opc ''fptosi''"

text \<open>
  The blocks the generator builds for
  \<^verbatim>\<open>void f() { int a[3]; int x; x = 1; x = 2; print(a[x + 1]); }\<close>
  and what \<open>number_instructions\<close> leaves for them.
\<close>

definition gen_kill_example :: "block list" where
  "gen_kill_example =
     [(new_block BasicBlock 1 ''%f'')
        \<lparr>instructions :=
           [(''define_void'', [VStr ''@f'', VParams []]),
            (''entry'', []),
            (''alloc_int_3'', [VStr ''%a'']),
            (''alloc_int'', [VStr ''%x'']),
            (''literal_int'', [VInt 1, VStr ''%1'']),
            (''store_int'', [VStr ''%1'', VStr ''%x'']),
            (''literal_int'', [VInt 2, VStr ''%2'']),
            (''store_int'', [VStr ''%2'', VStr ''%x'']),
            (''load_int'', [VStr ''%x'', VStr ''%3'']),
            (''literal_int'', [VInt 1, VStr ''%4'']),
            (''add_int'', [VStr ''%3'', VStr ''%4'', VStr ''%5'']),
            (''elem_int'', [VStr ''%a'', VStr ''%5'', VStr ''%6'']),
            (''load_int_*'', [VStr ''%6'', VStr ''%7'']),
            (''print_int'', [VStr ''%7'']),
            (''jump'', [VStr ''%exit''])],
         predecessors := [0], branch := Some 2, taken := Some 2\<rparr>,
      (new_block BasicBlock 2 ''%exit'')
        \<lparr>instructions := [(''exit:'', []), (''return_void'', [])],
         predecessors := [1]\<rparr>]"

definition gen_kill_example_numbering :: numbering where
  "gen_kill_example_numbering =
     \<lparr>labeled_code =
        [(1, (''define_void'', [VStr ''@f'', VParams []])),
         (2, (''entry'', [])),
         (3, (''alloc_int_3'', [VStr ''%a''])),
         (4, (''alloc_int'', [VStr ''%x''])),
         (5, (''literal_int'', [VInt 1, VStr ''%1''])),
         (6, (''store_int'', [VStr ''%1'', VStr ''%x''])),
         (7, (''literal_int'', [VInt 2, VStr ''%2''])),
         (8, (''store_int'', [VStr ''%2'', VStr ''%x''])),
         (9, (''load_int'', [VStr ''%x'', VStr ''%3''])),
         (10, (''literal_int'', [VInt 1, VStr ''%4''])),
         (11, (''add_int'', [VStr ''%3'', VStr ''%4'', VStr ''%5''])),
         (12, (''elem_int'', [VStr ''%a'', VStr ''%5'', VStr ''%6''])),
         (13, (''load_int_*'', [VStr ''%6'', VStr ''%7''])),
         (14, (''print_int'', [VStr ''%7''])),
         (15, (''jump'', [VStr ''%exit''])),
         (16, (''exit:'', [])),
         (17, (''return_void'', []))],
      defs = [(''%1'', [5]), (''%x'', [6, 8]), (''%2'', [7]), (''%3'', [9]), (''%4'', [10]),
              (''%5'', [11]), (''%6'', [12]), (''%7'', [13])],
      index = 18\<rparr>"

text \<open>The defining indices of a name, empty where the name has no entry.\<close>

definition dl :: "defs_map \<Rightarrow> string \<Rightarrow> nat list" where
  "dl d v = (case map_of d v of None \<Rightarrow> [] | Some l \<Rightarrow> l)"

text \<open>
  What the numbering maintains: every recorded index is below the counter, and the index
  of an instruction with a target occurs exactly once in the list of its target.
\<close>

definition numbered_ok :: "numbering \<Rightarrow> bool" where
  "numbered_ok st \<longleftrightarrow>
     (\<forall>v. \<forall>j \<in> set (dl (defs st) v). j < index st) \<and>
     (\<forall>(j, i) \<in> set (labeled_code st).
         j < index st \<and>
         (chain_op (fst i) \<longrightarrow> (\<exists>v. name_arg i 2 = Some v \<and> count_list (dl (defs st) v) j = 1)) \<and>
         (is_binop (fst i) \<longrightarrow> (\<exists>v. name_arg i 3 = Some v \<and> count_list (dl (defs st) v) j = 1)))"

subsection \<open>Reaching definitions\<close>

text \<open>
  \<open>sorted(a) == sorted(b)\<close> on lists of indices or of names: the two lists have the same
  elements with the same multiplicities.
\<close>

definition same_sorted :: "'a list \<Rightarrow> 'a list \<Rightarrow> bool" where
  "same_sorted xs ys \<longleftrightarrow>
     length xs = length ys \<and> (\<forall>x \<in> set xs. count_list xs x = count_list ys x)"

definition update_block_gen_kill_RD :: "block \<Rightarrow> nat list \<Rightarrow> nat list \<Rightarrow> block" where
  "update_block_gen_kill_RD bb inst_gen inst_kill =
     (if inst_gen = [] \<and> inst_kill = [] then bb
      else if gen_defs bb = []
      then (let bb1 = bb\<lparr>gen_defs := inst_gen\<rparr>
            in if kill_defs bb1 = [] then bb1\<lparr>kill_defs := inst_kill\<rparr> else bb1)
      else bb\<lparr>gen_defs := filter (\<lambda>i. i \<notin> set inst_kill) (gen_defs bb) @ inst_gen,
               kill_defs := kill_defs bb @ inst_kill\<rparr>)"

text \<open>\<open>computeRD_gen_kill\<close>: the loop over one block's \<open>numerated_code.items()\<close>, then over the blocks.\<close>

fun gen_kill_block :: "defs_map \<Rightarrow> (nat \<times> inst) list \<Rightarrow> block \<Rightarrow> block option" where
  "gen_kill_block dm [] bb = Some bb"
| "gen_kill_block dm ((idx, i) # rest) bb =
     (case instruction_gen_kill dm i idx of
        None \<Rightarrow> None
      | Some (g, k) \<Rightarrow> gen_kill_block dm rest (update_block_gen_kill_RD bb g k))"

fun computeRD_gen_kill :: "defs_map \<Rightarrow> block list \<Rightarrow> block list option" where
  "computeRD_gen_kill dm [] = Some []"
| "computeRD_gen_kill dm (bb # bbs) =
     (case gen_kill_block dm (numerated_code bb) bb of
        None \<Rightarrow> None
      | Some bb' \<Rightarrow> map_option ((#) bb') (computeRD_gen_kill dm bbs))"

text \<open>
  The worklist passes reach blocks through their links. \<open>find_block\<close> follows a link to the
  block object, \<open>update_block\<close> writes to it, \<open>next_block_of\<close> is the link \<open>next_block\<close> of
  the block at a position of the list.
\<close>

definition find_block :: "block list \<Rightarrow> nat \<Rightarrow> block option" where
  "find_block store r = find (\<lambda>b. bid b = r) store"

definition update_block :: "nat \<Rightarrow> (block \<Rightarrow> block) \<Rightarrow> block list \<Rightarrow> block list" where
  "update_block r f store = map (\<lambda>b. if bid b = r then f b else b) store"

fun next_block_of :: "block list \<Rightarrow> nat \<Rightarrow> nat option" where
  "next_block_of [] r = None"
| "next_block_of [b] r = None"
| "next_block_of (b # c # bs) r = (if bid b = r then Some (bid c) else next_block_of (c # bs) r)"

text \<open>
  \<open>list(set(xs))\<close>: the order in which Python iterates a set is not fixed by the language.
  The passes take it as the parameter \<open>sl\<close> (on indices) or \<open>sn\<close> (on names), applied to the
  list of the elements collected; nothing is assumed of it.

  \<open>for pred in block.predecessors: block.in_RD = list(set(block.in_RD).union(pred.out_RD))\<close>
\<close>

fun union_preds :: "(nat list \<Rightarrow> nat list) \<Rightarrow> block list \<Rightarrow> nat list \<Rightarrow> nat list \<Rightarrow> nat list option" where
  "union_preds sl store [] acc = Some acc"
| "union_preds sl store (p # ps) acc =
     (case find_block store p of
        None \<Rightarrow> None
      | Some pb \<Rightarrow> union_preds sl store ps (sl (acc @ out_RD pb)))"

text \<open>
  The blocks \<open>computeRD_in_out\<close> appends to \<open>changed\<close> after a change; an unset \<open>taken\<close>
  is appended as \<open>None\<close> and fails when it is popped.
\<close>

definition rd_successors :: "block list \<Rightarrow> block \<Rightarrow> nat option list" where
  "rd_successors store b =
     (case kind b of
        BasicBlock \<Rightarrow>
          (case branch b of
             Some t \<Rightarrow> [Some t]
           | None \<Rightarrow> (case next_block_of store (bid b) of Some n \<Rightarrow> [Some n] | None \<Rightarrow> []))
      | ConditionBlock \<Rightarrow>
          taken b # (case fall_through b of Some f \<Rightarrow> [Some f] | None \<Rightarrow> []))"

text \<open>
  The \<open>while changed\<close> loop. The first argument bounds the number of iterations; the
  result is \<open>None\<close> when the bound is reached with work left, or when Python raises.
\<close>

fun computeRD_loop :: "(nat list \<Rightarrow> nat list) \<Rightarrow> nat \<Rightarrow> nat option list \<Rightarrow> block list \<Rightarrow> block list option" where
  "computeRD_loop sl fuel [] store = Some store"
| "computeRD_loop sl 0 (w # ws) store = None"
| "computeRD_loop sl (Suc fuel) (None # ws) store = None"
| "computeRD_loop sl (Suc fuel) (Some r # ws) store =
     (case find_block store r of
        None \<Rightarrow> None
      | Some b \<Rightarrow>
          (case union_preds sl store (predecessors b) (in_RD b) of
             None \<Rightarrow> None
           | Some inn \<Rightarrow>
               (let old_out = out_RD b;
                    out = sl (filter (\<lambda>i. i \<notin> set (kill_defs b)) inn @ gen_defs b);
                    store' = update_block r (\<lambda>x. x\<lparr>in_RD := inn, out_RD := out\<rparr>) store
                in computeRD_loop sl fuel
                     (if same_sorted old_out out then ws else ws @ rd_successors store b)
                     store')))"

definition computeRD_in_out :: "(nat list \<Rightarrow> nat list) \<Rightarrow> nat \<Rightarrow> block list \<Rightarrow> block list \<Rightarrow> block list option" where
  "computeRD_in_out sl fuel outside cfg =
     computeRD_loop sl fuel (map (\<lambda>b. Some (bid b)) cfg) (outside @ cfg)"

subsection \<open>Constant propagation\<close>

text \<open>
  \<open>check_constant_propagation\<close> returns a literal value or Python's \<open>None\<close>: the inner
  option of the result; the outer option is \<open>None\<close> where Python raises (a missing key,
  a missing operand).

  The inner loop \<open>for store_defs in self.defs[...]\<close>: its \<open>break\<close> leaves this loop only,
  so all it hands back to the outer loop is \<open>current_value\<close>.
\<close>

fun cp_store_defs :: "(nat \<times> inst) list \<Rightarrow> nat list \<Rightarrow> operand option \<Rightarrow> operand option option" where
  "cp_store_defs lc [] cv = Some cv"
| "cp_store_defs lc (sd # sds) cv =
     (case map_of lc sd of
        None \<Rightarrow> None
      | Some i \<Rightarrow>
          if startswith (fst i) ''literal''
          then (case arg i 1 of
                  None \<Rightarrow> None
                | Some v \<Rightarrow>
                    (case cv of
                       None \<Rightarrow> cp_store_defs lc sds (Some v)
                     | Some c \<Rightarrow> if \<not> py_eq c v then Some None else cp_store_defs lc sds cv))
          else Some None)"

text \<open>The outer loop \<open>for definition in current_defs\<close>; \<open>vdefs\<close> is \<open>self.defs[variable]\<close>.\<close>

fun cp_definitions :: "(nat \<times> inst) list \<Rightarrow> defs_map \<Rightarrow> nat list \<Rightarrow> nat list \<Rightarrow> operand option \<Rightarrow> operand option option" where
  "cp_definitions lc dm vdefs [] cv = Some cv"
| "cp_definitions lc dm vdefs (d # ds) cv =
     (if d \<in> set vdefs
      then (case map_of lc d of
              None \<Rightarrow> None
            | Some i \<Rightarrow>
                if startswith (fst i) ''store''
                then (case name_arg i 1 of
                        None \<Rightarrow> None
                      | Some src \<Rightarrow>
                          (case map_of dm src of
                             None \<Rightarrow> None
                           | Some sds \<Rightarrow>
                               (case cp_store_defs lc sds cv of
                                  None \<Rightarrow> None
                                | Some cv' \<Rightarrow> cp_definitions lc dm vdefs ds cv')))
                else Some None)
      else cp_definitions lc dm vdefs ds cv)"

definition check_constant_propagation :: "(nat \<times> inst) list \<Rightarrow> defs_map \<Rightarrow> nat list \<Rightarrow> operand \<Rightarrow> operand option option" where
  "check_constant_propagation lc dm current_defs variable =
     (case variable of
        VStr s \<Rightarrow>
          (case s of
             [] \<Rightarrow> None
           | c # _ \<Rightarrow>
               if c = CHR ''@'' then Some None
               else (case map_of dm s of
                       None \<Rightarrow> Some None
                     | Some vdefs \<Rightarrow> cp_definitions lc dm vdefs current_defs None))
      | _ \<Rightarrow> None)"

text \<open>
  The body of \<open>constant_propagation\<close> for one numbered instruction: the rewrite of a load,
  written to \<open>bb.numerated_code\<close> and to \<open>self.labeled_code\<close>.
\<close>

definition cp_rewrite :: "defs_map \<Rightarrow> nat list \<Rightarrow> nat \<Rightarrow> inst \<Rightarrow> block \<Rightarrow> (nat \<times> inst) list \<Rightarrow> (block \<times> (nat \<times> inst) list) option" where
  "cp_rewrite dm current_defs idx i bb lc =
     (if startswith (fst i) ''load''
      then (case arg i 1 of
              None \<Rightarrow> None
            | Some variable \<Rightarrow>
                (case check_constant_propagation lc dm current_defs variable of
                   None \<Rightarrow> None
                 | Some None \<Rightarrow> Some (bb, lc)
                 | Some (Some v) \<Rightarrow>
                     (case arg i 2 of
                        None \<Rightarrow> None
                      | Some tgt \<Rightarrow>
                          (let new = (''literal_'' @ type_name v, [v, tgt])
                           in Some (bb\<lparr>numerated_code := AList.update idx new (numerated_code bb)\<rparr>,
                                    AList.update idx new lc)))))
      else Some (bb, lc))"

text \<open>The loop over \<open>bb.numerated_code.items()\<close> with the running set \<open>current_defs\<close>.\<close>

fun cp_block :: "(nat list \<Rightarrow> nat list) \<Rightarrow> defs_map \<Rightarrow> (nat \<times> inst) list \<Rightarrow> block \<Rightarrow> (nat \<times> inst) list \<Rightarrow> nat list \<Rightarrow> (block \<times> (nat \<times> inst) list) option" where
  "cp_block sl dm [] bb lc current_defs = Some (bb, lc)"
| "cp_block sl dm ((idx, i) # rest) bb lc current_defs =
     (case cp_rewrite dm current_defs idx i bb lc of
        None \<Rightarrow> None
      | Some (bb', lc') \<Rightarrow>
          (case instruction_gen_kill dm i idx of
             None \<Rightarrow> None
           | Some (g, k) \<Rightarrow>
               cp_block sl dm rest bb' lc'
                 (if g \<noteq> [] \<or> k \<noteq> []
                  then sl (filter (\<lambda>x. x \<notin> set k) current_defs @ g)
                  else current_defs)))"

fun cp_blocks :: "(nat list \<Rightarrow> nat list) \<Rightarrow> defs_map \<Rightarrow> block list \<Rightarrow> (nat \<times> inst) list \<Rightarrow> (block list \<times> (nat \<times> inst) list) option" where
  "cp_blocks sl dm [] lc = Some ([], lc)"
| "cp_blocks sl dm (bb # bbs) lc =
     (case cp_block sl dm (numerated_code bb) bb lc (in_RD bb) of
        None \<Rightarrow> None
      | Some (bb', lc') \<Rightarrow>
          (case cp_blocks sl dm bbs lc' of
             None \<Rightarrow> None
           | Some (bbs', lc'') \<Rightarrow> Some (bb' # bbs', lc'')))"

text \<open>\<open>constant_propagation\<close> reads \<open>cfg.in_RD\<close> before its loop: it needs a first block.\<close>

definition constant_propagation :: "(nat list \<Rightarrow> nat list) \<Rightarrow> defs_map \<Rightarrow> block list \<Rightarrow> (nat \<times> inst) list \<Rightarrow> (block list \<times> (nat \<times> inst) list) option" where
  "constant_propagation sl dm cfg lc = (if cfg = [] then None else cp_blocks sl dm cfg lc)"

subsection \<open>Live variables\<close>

text \<open>
  \<open>bb.used.append(inst[k])\<close> for each \<open>k\<close> of \<open>us\<close> and \<open>bb.defined.append(inst[k])\<close> for
  each \<open>k\<close> of \<open>ds\<close>, on the pair \<open>(used, defined)\<close>.
\<close>

definition add_names :: "inst \<Rightarrow> nat list \<Rightarrow> nat list \<Rightarrow> string list \<times> string list \<Rightarrow> (string list \<times> string list) option" where
  "add_names i us ds ud =
     (case (those (map (name_arg i) us), those (map (name_arg i) ds)) of
        (Some a, Some b) \<Rightarrow> Some (fst ud @ a, snd ud @ b)
      | _ \<Rightarrow> None)"

text \<open>The four parts of the loop body of \<open>computeLV_use_def\<close>, in the order of the source.\<close>

definition use_def_chain :: "inst \<Rightarrow> string list \<times> string list \<Rightarrow> (string list \<times> string list) option" where
  "use_def_chain i ud =
     (let opc = fst i in
      if startswith opc ''store'' then add_names i [1] [2] ud
      else if startswith opc ''literal'' then add_names i [] [2] ud
      else if startswith opc ''load'' then add_names i [1] [2] ud
      else if startswith opc ''call'' then add_names i [1] [2] ud
      else if startswith opc ''elem'' then add_names i [1, 2] [3] ud
      else if startswith opc ''not_'' then add_names i [1] [2] ud
      else Some ud)"

definition use_def_binops :: "inst \<Rightarrow> string list \<times> string list \<Rightarrow> (string list \<times> string list) option" where
  "use_def_binops i ud =
     fold (\<lambda>b r. case r of
                    None \<Rightarrow> None
                  | Some x \<Rightarrow> if startswith (fst i) b then add_names i [1, 2] [3] x else Some x)
          binary_ops (Some ud)"

definition use_def_call :: "inst \<Rightarrow> string list \<times> string list \<Rightarrow> (string list \<times> string list) option" where
  "use_def_call i ud = (if startswith (fst i) ''call'' then add_names i [] [2] ud else Some ud)"

definition use_def_using :: "inst \<Rightarrow> string list \<times> string list \<Rightarrow> (string list \<times> string list) option" where
  "use_def_using i ud =
     (let opc = fst i in
      if startswith opc ''print'' then add_names i [1] [] ud
      else if startswith opc ''sitofp'' then add_names i [1] [2] ud
      else if startswith opc ''fptosi'' then add_names i [1] [2] ud
      else if startswith opc ''return'' then (if opc \<noteq> ''return_void'' then add_names i [1] [] ud else Some ud)
      else if startswith opc ''param'' then add_names i [1] [] ud
      else if startswith opc ''cbranch'' then add_names i [1] [] ud
      else Some ud)"

definition use_def_inst :: "inst \<Rightarrow> string list \<times> string list \<Rightarrow> (string list \<times> string list) option" where
  "use_def_inst i ud =
     (case use_def_chain i ud of
        None \<Rightarrow> None
      | Some a \<Rightarrow>
          (case use_def_binops i a of
             None \<Rightarrow> None
           | Some b \<Rightarrow>
               (case use_def_call i b of
                  None \<Rightarrow> None
                | Some c \<Rightarrow> use_def_using i c)))"

fun use_def_block :: "(nat \<times> inst) list \<Rightarrow> string list \<times> string list \<Rightarrow> (string list \<times> string list) option" where
  "use_def_block [] ud = Some ud"
| "use_def_block ((key, i) # rest) ud =
     (case use_def_inst i ud of None \<Rightarrow> None | Some ud' \<Rightarrow> use_def_block rest ud')"

text \<open>\<open>list(dict.fromkeys(xs))\<close>: duplicates removed, the first occurrence kept.\<close>

definition dedup :: "'a list \<Rightarrow> 'a list" where
  "dedup xs = rev (remdups (rev xs))"

fun computeLV_use_def :: "block list \<Rightarrow> block list option" where
  "computeLV_use_def [] = Some []"
| "computeLV_use_def (bb # bbs) =
     (case use_def_block (numerated_code bb) (used bb, defined bb) of
        None \<Rightarrow> None
      | Some (u, d) \<Rightarrow>
          map_option ((#) (bb\<lparr>used := dedup u, defined := dedup d\<rparr>)) (computeLV_use_def bbs))"

text \<open>
  The new \<open>out_set\<close> of a block in \<open>computeLV_in_out\<close>, read after its \<open>in_set\<close> is written;
  \<open>gv\<close> is \<open>self.global_variables\<close>. An unset successor raises AttributeError.
\<close>

definition lv_out :: "(string list \<Rightarrow> string list) \<Rightarrow> string list \<Rightarrow> block list \<Rightarrow> block \<Rightarrow> string list option" where
  "lv_out sn gv store b =
     (if label b = ''%exit'' then Some gv
      else (case kind b of
              BasicBlock \<Rightarrow>
                (case branch b of
                   Some t \<Rightarrow> map_option in_set (find_block store t)
                 | None \<Rightarrow>
                     (case next_block_of store (bid b) of
                        None \<Rightarrow> None
                      | Some n \<Rightarrow> map_option in_set (find_block store n)))
            | ConditionBlock \<Rightarrow>
                (case (taken b, fall_through b) of
                   (Some t, Some f) \<Rightarrow>
                     (case (find_block store t, find_block store f) of
                        (Some tb, Some fb) \<Rightarrow> Some (sn (in_set tb @ in_set fb))
                      | _ \<Rightarrow> None)
                 | _ \<Rightarrow> None)))"

text \<open>The \<open>while worklist\<close> loop: \<open>worklist.pop(-1)\<close> takes the last element.\<close>

fun computeLV_loop :: "(string list \<Rightarrow> string list) \<Rightarrow> string list \<Rightarrow> nat \<Rightarrow> nat list \<Rightarrow> block list \<Rightarrow> block list option" where
  "computeLV_loop sn gv fuel [] store = Some store"
| "computeLV_loop sn gv 0 (w # ws) store = None"
| "computeLV_loop sn gv (Suc fuel) (w # ws) store =
     (let r = last (w # ws); rest = butlast (w # ws) in
      case find_block store r of
        None \<Rightarrow> None
      | Some b \<Rightarrow>
          (let old_in = in_set b; old_out = out_set b;
               inn = sn (filter (\<lambda>i. i \<notin> set (defined b)) (out_set b) @ used b);
               store1 = update_block r (\<lambda>x. x\<lparr>in_set := inn\<rparr>) store
           in case lv_out sn gv store1 b of
                None \<Rightarrow> None
              | Some out \<Rightarrow>
                  computeLV_loop sn gv fuel
                    (if same_sorted old_out out \<and> same_sorted old_in inn then rest
                     else rest @ predecessors b)
                    (update_block r (\<lambda>x. x\<lparr>out_set := out\<rparr>) store1)))"

definition computeLV_in_out :: "(string list \<Rightarrow> string list) \<Rightarrow> string list \<Rightarrow> nat \<Rightarrow> block list \<Rightarrow> block list \<Rightarrow> block list option" where
  "computeLV_in_out sn gv fuel outside cfg =
     computeLV_loop sn gv fuel (map bid cfg) (outside @ cfg)"

subsection \<open>Dead-code elimination and emission\<close>

text \<open>\<open>if inst[k] not in bb.out_set and inst[k] not in bb.used: self.dead_code.append(key)\<close>\<close>

definition dead_at :: "block \<Rightarrow> inst \<Rightarrow> nat \<Rightarrow> nat \<Rightarrow> nat list \<Rightarrow> nat list option" where
  "dead_at bb i k key dead =
     (case name_arg i k of
        None \<Rightarrow> None
      | Some t \<Rightarrow> Some (if t \<notin> set (out_set bb) \<and> t \<notin> set (used bb) then dead @ [key] else dead))"

definition dce_inst :: "block \<Rightarrow> nat \<Rightarrow> inst \<Rightarrow> nat list \<Rightarrow> nat list option" where
  "dce_inst bb key i dead =
     (let opc = fst i in
      case (if startswith opc ''store'' \<or> startswith opc ''literal'' \<or> startswith opc ''load''
            then dead_at bb i 2 key dead else Some dead) of
        None \<Rightarrow> None
      | Some d1 \<Rightarrow>
          (case fold (\<lambda>b r. case r of
                               None \<Rightarrow> None
                             | Some d \<Rightarrow> if startswith opc b then dead_at bb i 3 key d else Some d)
                     binary_ops (Some d1) of
             None \<Rightarrow> None
           | Some d2 \<Rightarrow> if startswith opc ''call'' then dead_at bb i 2 key d2 else Some d2))"

fun dce_block :: "block \<Rightarrow> (nat \<times> inst) list \<Rightarrow> nat list \<Rightarrow> nat list option" where
  "dce_block bb [] dead = Some dead"
| "dce_block bb ((key, i) # rest) dead =
     (case dce_inst bb key i dead of None \<Rightarrow> None | Some d \<Rightarrow> dce_block bb rest d)"

fun dce_blocks :: "block list \<Rightarrow> nat list \<Rightarrow> nat list option" where
  "dce_blocks [] dead = Some dead"
| "dce_blocks (bb # bbs) dead =
     (case dce_block bb (numerated_code bb) dead of None \<Rightarrow> None | Some d \<Rightarrow> dce_blocks bbs d)"

text \<open>\<open>deadcode_elimination\<close> empties \<open>self.dead_code\<close> first; the result is the new list.\<close>

definition deadcode_elimination :: "block list \<Rightarrow> nat list option" where
  "deadcode_elimination cfg = dce_blocks cfg []"

definition appendOptimizedCode :: "(nat \<times> inst) list \<Rightarrow> nat list \<Rightarrow> inst list \<Rightarrow> inst list" where
  "appendOptimizedCode lc dead code = code @ map snd (filter (\<lambda>(key, i). key \<notin> set dead) lc)"

subsection \<open>The driver\<close>

text \<open>
  A function definition as the analyser sees it: \<open>cfg\<close>, the blocks from \<open>_decl.cfg\<close> on in
  \<open>next_block\<close> order, and \<open>outside\<close>, the blocks whose \<open>next_block\<close> chain leads to
  \<open>_decl.cfg\<close> (the block \<open>%global\<close> for the first function, none for the others), which
  the links of \<open>cfg\<close> may name.
\<close>

record FuncDef =
  outside :: "block list"
  cfg :: "block list"

definition save_global_variables :: "inst list \<Rightarrow> string list option" where
  "save_global_variables text = those (map (\<lambda>i. name_arg i 1) text)"

text \<open>The body of the loop of \<open>visit_Program\<close> for one function definition.\<close>

definition visit_FuncDef :: "(nat list \<Rightarrow> nat list) \<Rightarrow> (string list \<Rightarrow> string list) \<Rightarrow> nat \<Rightarrow> string list \<Rightarrow> FuncDef \<Rightarrow> inst list \<Rightarrow> inst list option" where
  "visit_FuncDef sl sn fuel gv fd code =
     (case number_instructions [] (cfg fd) of
        None \<Rightarrow> None
      | Some (cfg1, st) \<Rightarrow>
     (case computeRD_gen_kill (defs st) cfg1 of
        None \<Rightarrow> None
      | Some cfg2 \<Rightarrow>
     (case computeRD_in_out sl fuel (outside fd) cfg2 of
        None \<Rightarrow> None
      | Some store3 \<Rightarrow>
     (case constant_propagation sl (defs st) (drop (length (outside fd)) store3) (labeled_code st) of
        None \<Rightarrow> None
      | Some (cfg4, lc) \<Rightarrow>
     (case computeLV_use_def cfg4 of
        None \<Rightarrow> None
      | Some cfg5 \<Rightarrow>
     (case computeLV_in_out sn gv fuel (take (length (outside fd)) store3) cfg5 of
        None \<Rightarrow> None
      | Some store6 \<Rightarrow>
     (case deadcode_elimination (drop (length (outside fd)) store6) of
        None \<Rightarrow> None
      | Some dead \<Rightarrow> Some (appendOptimizedCode lc dead code))))))))"

fun visit_FuncDefs :: "(nat list \<Rightarrow> nat list) \<Rightarrow> (string list \<Rightarrow> string list) \<Rightarrow> nat \<Rightarrow> string list \<Rightarrow> FuncDef list \<Rightarrow> inst list \<Rightarrow> inst list option" where
  "visit_FuncDefs sl sn fuel gv [] code = Some code"
| "visit_FuncDefs sl sn fuel gv (fd # fds) code =
     (case visit_FuncDef sl sn fuel gv fd code of
        None \<Rightarrow> None
      | Some code' \<Rightarrow> visit_FuncDefs sl sn fuel gv fds code')"

text \<open>
  \<open>DataFlow.visit_Program\<close> on the program's global instructions \<open>node.text\<close> and its
  function definitions, in order; the result is \<open>self.code\<close>.
\<close>

definition visit_Program :: "(nat list \<Rightarrow> nat list) \<Rightarrow> (string list \<Rightarrow> string list) \<Rightarrow> nat \<Rightarrow> inst list \<Rightarrow> FuncDef list \<Rightarrow> inst list option" where
  "visit_Program sl sn fuel text fds =
     (case save_global_variables text of
        None \<Rightarrow> None
      | Some gv \<Rightarrow> visit_FuncDefs sl sn fuel gv fds text)"

text \<open>
  \<open>CodeGenerator.visit_Program\<close>, its last loop: \<open>self.code\<close> is the global instructions
  followed by the instructions of each function's blocks.
\<close>

definition generated_code :: "inst list \<Rightarrow> FuncDef list \<Rightarrow> inst list" where
  "generated_code text fds = text @ concat (map (\<lambda>fd. EmitBlocks (cfg fd)) fds)"

subsection \<open>Relations between the numbered code before and after a pass\<close>

text \<open>
  What constant propagation may make of one instruction: nothing, or, of a load, a literal
  instruction with the load's target \<open>inst[2]\<close>.
\<close>

definition cp_result :: "inst \<Rightarrow> inst \<Rightarrow> bool" where
  "cp_result i i' \<longleftrightarrow>
     i' = i \<or>
     (startswith (fst i) ''load'' \<and>
      (\<exists>v t. arg i 2 = Some t \<and> i' = (''literal_'' @ type_name v, [v, t])))"

text \<open>Two numbered lists with the same indices at the same positions, related entry by entry.\<close>

definition same_numbering :: "(nat \<times> inst) list \<Rightarrow> (nat \<times> inst) list \<Rightarrow> bool" where
  "same_numbering lc lc' \<longleftrightarrow> list_all2 (\<lambda>a b. fst b = fst a \<and> cp_result (snd a) (snd b)) lc lc'"

text \<open>
  The blocks' \<open>numerated_code\<close> dicts are dicts (no index twice) and agree with
  \<open>self.labeled_code\<close>, as they do after \<open>number_instructions\<close>.
\<close>

definition numbered_by :: "(nat \<times> inst) list \<Rightarrow> block list \<Rightarrow> bool" where
  "numbered_by lc bs \<longleftrightarrow>
     (\<forall>bb \<in> set bs. distinct (map fst (numerated_code bb)) \<and>
                     (\<forall>(k, i) \<in> set (numerated_code bb). map_of lc k = Some i))"

text \<open>The block of \<open>x = 5; print(x)\<close>, numbered, and its definition map.\<close>

definition cp_example_input :: "block list" where
  "cp_example_input =
     [(new_block BasicBlock 1 ''%main'')
        \<lparr>instructions :=
           [(''literal_int'', [VInt 5, VStr ''%1'']),
            (''store_int'', [VStr ''%1'', VStr ''%x'']),
            (''load_int'', [VStr ''%x'', VStr ''%2'']),
            (''print_int'', [VStr ''%2''])]\<rparr>]"

definition cp_example_lc :: "(nat \<times> inst) list" where
  "cp_example_lc =
     [(1, (''literal_int'', [VInt 5, VStr ''%1''])),
      (2, (''store_int'', [VStr ''%1'', VStr ''%x''])),
      (3, (''load_int'', [VStr ''%x'', VStr ''%2''])),
      (4, (''print_int'', [VStr ''%2'']))]"

definition cp_example_defs :: defs_map where
  "cp_example_defs = [(''%1'', [1]), (''%x'', [2]), (''%2'', [3])]"

definition cp_example :: "block list" where
  "cp_example = map (\<lambda>b. b\<lparr>numerated_code := cp_example_lc\<rparr>) cp_example_input"

definition cp_example_lc' :: "(nat \<times> inst) list" where
  "cp_example_lc' =
     [(1, (''literal_int'', [VInt 5, VStr ''%1''])),
      (2, (''store_int'', [VStr ''%1'', VStr ''%x''])),
      (3, (''literal_int'', [VInt 5, VStr ''%2''])),
      (4, (''print_int'', [VStr ''%2'']))]"

text \<open>The instructions \<open>xs\<close> with the consecutive indices from \<open>n\<close> on.\<close>

definition enum_from :: "nat \<Rightarrow> inst list \<Rightarrow> (nat \<times> inst) list" where
  "enum_from n xs = zip [n ..< n + length xs] xs"

text \<open>The opcodes that \<open>deadcode_elimination\<close> may mark, and those the claim calls side-effecting.\<close>

definition removable :: "string \<Rightarrow> bool" where
  "removable opc \<longleftrightarrow>
     startswith opc ''store'' \<or> startswith opc ''literal'' \<or> startswith opc ''load''
     \<or> is_binop opc \<or> startswith opc ''call''"

definition side_effecting :: "string \<Rightarrow> bool" where
  "side_effecting opc \<longleftrightarrow>
     (\<exists>p \<in> set [''print'', ''cbranch'', ''jump'', ''return'', ''param'', ''elem'', ''sitofp'', ''fptosi''].
        startswith opc p)"

subsection \<open>A compiled function\<close>

text \<open>
  The blocks the generator builds for \<^verbatim>\<open>void f() { print(1); }\<close>: the block \<open>%global\<close>
  before the entry block, the entry block and the exit block.
\<close>

definition small_example :: FuncDef where
  "small_example =
     \<lparr>outside = [(new_block BasicBlock 0 ''%global'')],
      cfg =
        [(new_block BasicBlock 1 ''%f'')
           \<lparr>instructions :=
              [(''define_void'', [VStr ''@f'', VParams []]),
               (''entry'', []),
               (''literal_int'', [VInt 1, VStr ''%1'']),
               (''print_int'', [VStr ''%1'']),
               (''jump'', [VStr ''%exit''])],
            predecessors := [0], branch := Some 2, taken := Some 2\<rparr>,
         (new_block BasicBlock 2 ''%exit'')
           \<lparr>instructions := [(''exit:'', []), (''return_void'', [])],
            predecessors := [1]\<rparr>]\<rparr>"

text \<open>
  The blocks the generator builds for \<^verbatim>\<open>void f() { int y; y = 1; print(2); }\<close> and the list
  the analyser emits for them: the store to \<open>y\<close> is gone.
\<close>

definition dead_store_example :: FuncDef where
  "dead_store_example =
     \<lparr>outside = [(new_block BasicBlock 0 ''%global'')],
      cfg =
        [(new_block BasicBlock 1 ''%f'')
           \<lparr>instructions :=
              [(''define_void'', [VStr ''@f'', VParams []]),
               (''entry'', []),
               (''alloc_int'', [VStr ''%y'']),
               (''literal_int'', [VInt 1, VStr ''%1'']),
               (''store_int'', [VStr ''%1'', VStr ''%y'']),
               (''literal_int'', [VInt 2, VStr ''%2'']),
               (''print_int'', [VStr ''%2'']),
               (''jump'', [VStr ''%exit''])],
            predecessors := [0], branch := Some 2, taken := Some 2\<rparr>,
         (new_block BasicBlock 2 ''%exit'')
           \<lparr>instructions := [(''exit:'', []), (''return_void'', [])],
            predecessors := [1]\<rparr>]\<rparr>"

definition dead_store_optimised :: "inst list" where
  "dead_store_optimised =
     [(''define_void'', [VStr ''@f'', VParams []]),
      (''entry'', []),
      (''alloc_int'', [VStr ''%y'']),
      (''literal_int'', [VInt 1, VStr ''%1'']),
      (''literal_int'', [VInt 2, VStr ''%2'']),
      (''print_int'', [VStr ''%2'']),
      (''jump'', [VStr ''%exit'']),
      (''exit:'', []),
      (''return_void'', [])]"

text \<open>
  The entry block of that function as \<open>deadcode_elimination\<close> finds it: numbered, with the
  \<open>used\<close> list and the \<open>out_set\<close> that the live-variable pass computes.
\<close>

definition dead_store_block :: block where
  "dead_store_block =
     (new_block BasicBlock 1 ''%f'')
       \<lparr>numerated_code :=
          [(1, (''define_void'', [VStr ''@f'', VParams []])),
           (2, (''entry'', [])),
           (3, (''alloc_int'', [VStr ''%y''])),
           (4, (''literal_int'', [VInt 1, VStr ''%1''])),
           (5, (''store_int'', [VStr ''%1'', VStr ''%y''])),
           (6, (''literal_int'', [VInt 2, VStr ''%2''])),
           (7, (''print_int'', [VStr ''%2''])),
           (8, (''jump'', [VStr ''%exit'']))],
        used := [''%1'', ''%2''], defined := [''%1'', ''%y'', ''%2''], out_set := []\<rparr>"

section \<open>Types and the semantic visitor (uc\_type.py, uc\_sema.py)\<close>

text \<open>
  \<open>uCType\<close> and \<open>ArrayType\<close>. The size of an array type is \<open>None\<close>, an \<open>int\<close> (the length
  of a string or of an initialiser list) or the text of the constant in the declaration.
\<close>

datatype asize = IntSize nat | StrSize string

datatype uctype =
    IntType | FloatType | CharType | BoolType | StringType | VoidType
  | ArrayType uctype "asize option"

fun type_unary_ops :: "uctype \<Rightarrow> string set" where
  "type_unary_ops IntType = {''-'', ''+'', ''--'', ''++'', ''p--'', ''p++'', ''*'', ''&''}"
| "type_unary_ops FloatType = {''-'', ''+'', ''*'', ''&''}"
| "type_unary_ops CharType = {}"
| "type_unary_ops BoolType = {''!''}"
| "type_unary_ops StringType = {}"
| "type_unary_ops VoidType = {}"
| "type_unary_ops (ArrayType _ _) = {''*'', ''&''}"

fun type_binary_ops :: "uctype \<Rightarrow> string set" where
  "type_binary_ops IntType = {''+'', ''-'', ''*'', ''/'', ''%''}"
| "type_binary_ops FloatType = {''+'', ''-'', ''*'', ''/'', ''%''}"
| "type_binary_ops CharType = {}"
| "type_binary_ops BoolType = {}"
| "type_binary_ops StringType = {''+''}"
| "type_binary_ops VoidType = {}"
| "type_binary_ops (ArrayType _ _) = {}"

fun type_rel_ops :: "uctype \<Rightarrow> string set" where
  "type_rel_ops IntType = {''=='', ''!='', ''<'', ''>'', ''<='', ''>=''}"
| "type_rel_ops FloatType = {''=='', ''!='', ''<'', ''>'', ''<='', ''>=''}"
| "type_rel_ops CharType = {''=='', ''!='', ''&&'', ''||''}"
| "type_rel_ops BoolType = {''=='', ''!='', ''&&'', ''||''}"
| "type_rel_ops StringType = {''=='', ''!=''}"
| "type_rel_ops VoidType = {}"
| "type_rel_ops (ArrayType _ _) = {''=='', ''!=''}"

fun type_assign_ops :: "uctype \<Rightarrow> string set" where
  "type_assign_ops IntType = {''='', ''+='', ''-='', ''*='', ''/='', ''%=''}"
| "type_assign_ops FloatType = {''='', ''+='', ''-='', ''*='', ''/='', ''%=''}"
| "type_assign_ops CharType = {''=''}"
| "type_assign_ops BoolType = {''=''}"
| "type_assign_ops StringType = {''=''}"
| "type_assign_ops VoidType = {}"
| "type_assign_ops (ArrayType _ _) = {''=''}"

text \<open>\<open>str(n)\<close> of a natural number.\<close>

fun str_nat :: "nat \<Rightarrow> string" where
  "str_nat n =
     (if n < 10 then [char_of (48 + n)]
      else str_nat (n div 10) @ [char_of (48 + n mod 10)])"

fun str_size :: "asize \<Rightarrow> string" where
  "str_size (IntSize n) = str_nat n"
| "str_size (StrSize s) = s"

text \<open>\<open>__str__\<close>: the type name, and for an array the split of the element's text at its first \<open>[\<close>.\<close>

fun uc_str :: "uctype \<Rightarrow> string" where
  "uc_str IntType = ''int''"
| "uc_str FloatType = ''float''"
| "uc_str CharType = ''char''"
| "uc_str BoolType = ''bool''"
| "uc_str StringType = ''string''"
| "uc_str VoidType = ''void''"
| "uc_str (ArrayType t sz) =
     (let s = uc_str t;
          head = takeWhile (\<lambda>c. c \<noteq> CHR ''['') s;
          rest = dropWhile (\<lambda>c. c \<noteq> CHR ''['') s;
          complement = (case sz of Some n \<Rightarrow> ''['' @ str_size n @ '']'' | None \<Rightarrow> ''[]'')
      in if rest \<noteq> [] then head @ complement @ rest else head @ complement)"

definition typemap :: "string \<Rightarrow> uctype option" where
  "typemap n =
     (if n = ''int'' then Some IntType else if n = ''float'' then Some FloatType
      else if n = ''char'' then Some CharType else if n = ''bool'' then Some BoolType
      else if n = ''string'' then Some StringType else if n = ''void'' then Some VoidType
      else None)"

text \<open>The expression nodes of the AST (uc\_ast.py), without coordinates.\<close>

datatype expr =
    Constant string string
  | ID string
  | BinaryOp string expr expr
  | UnaryOp string expr
  | Cast string expr
  | ArrayRef expr expr
  | FuncCall expr "expr option"
  | ExprList "expr list"
  | Assignment string expr expr

text \<open>
  The outcome of a visit: a semantic error with its code (the analyser prints the message
  and exits), or an exception of Python itself (a missing attribute or key).
\<close>

datatype sem_error = SemanticError nat | PythonError

text \<open>
  What a visit leaves on the node: its \<open>uc_type\<close>, or, for an \<open>ExprList\<close>, which has no such
  attribute, the types in \<open>expr_types\<close>.
\<close>

datatype annot = Typed uctype | Untyped "uctype list"

definition uc_type_of :: "sem_error + annot \<Rightarrow> sem_error + uctype" where
  "uc_type_of r =
     (case r of
        Inl e \<Rightarrow> Inl e
      | Inr (Typed t) \<Rightarrow> Inr t
      | Inr (Untyped _) \<Rightarrow> Inl PythonError)"

type_synonym symtab = "(uctype, (string \<times> uctype) list) SymbolTable"

subsection \<open>The visitor methods for expressions\<close>

text \<open>
  Visiting an expression reads the symbol table and annotates nodes; it changes neither
  the table nor the outcome of visiting another node. Each method is given the outcomes of
  the visits of its children, which it consults in the order of the source: the first
  failure in that order is the outcome.
\<close>

definition visit_Constant :: "string \<Rightarrow> string \<Rightarrow> sem_error + annot" where
  "visit_Constant ty val =
     (if ty \<noteq> ''string''
      then (case typemap ty of None \<Rightarrow> Inl PythonError | Some t \<Rightarrow> Inr (Typed t))
      else Inr (Typed (ArrayType CharType (Some (IntSize (length val))))))"

definition visit_ID :: "symtab \<Rightarrow> string \<Rightarrow> sem_error + annot" where
  "visit_ID st name =
     (case declared name st of
        None \<Rightarrow> Inl PythonError
      | Some d \<Rightarrow>
          if d < 0
          then (case lookup name st of None \<Rightarrow> Inl PythonError | Some t \<Rightarrow> Inr (Typed t))
          else Inl (SemanticError 1))"

definition visit_BinaryOp :: "string \<Rightarrow> sem_error + annot \<Rightarrow> sem_error + annot \<Rightarrow> sem_error + annot" where
  "visit_BinaryOp opr left right =
     (case uc_type_of left of
        Inl e \<Rightarrow> Inl e
      | Inr ltype \<Rightarrow>
          (case uc_type_of right of
             Inl e \<Rightarrow> Inl e
           | Inr rtype \<Rightarrow>
               if uc_str ltype \<noteq> uc_str rtype then Inl (SemanticError 6)
               else if opr \<in> type_binary_ops ltype then Inr (Typed ltype)
               else if opr \<in> type_rel_ops ltype then Inr (Typed BoolType)
               else Inl (SemanticError 7)))"

definition visit_UnaryOp :: "string \<Rightarrow> sem_error + annot \<Rightarrow> sem_error + annot" where
  "visit_UnaryOp opr e =
     (case uc_type_of e of
        Inl err \<Rightarrow> Inl err
      | Inr t \<Rightarrow> if opr \<in> type_unary_ops t then Inr (Typed t) else Inl (SemanticError 26))"

definition visit_Cast :: "string \<Rightarrow> sem_error + annot \<Rightarrow> sem_error + annot" where
  "visit_Cast ty val =
     (case val of
        Inl err \<Rightarrow> Inl err
      | Inr _ \<Rightarrow> (case typemap ty of None \<Rightarrow> Inl PythonError | Some t \<Rightarrow> Inr (Typed t)))"

definition visit_ArrayRef :: "sem_error + annot \<Rightarrow> sem_error + annot \<Rightarrow> sem_error + annot" where
  "visit_ArrayRef arr pos =
     (case arr of
        Inl err \<Rightarrow> Inl err
      | Inr _ \<Rightarrow>
          (case uc_type_of pos of
             Inl err \<Rightarrow> Inl err
           | Inr ptype \<Rightarrow>
               if uc_str ptype \<noteq> ''int'' then Inl (SemanticError 2)
               else (case uc_type_of arr of
                       Inr (ArrayType t _) \<Rightarrow> Inr (Typed t)
                     | Inr _ \<Rightarrow> Inl PythonError
                     | Inl err \<Rightarrow> Inl err)))"

text \<open>The loop of \<open>visit_FuncCall\<close> over the declared parameters, with the position \<open>i\<close>.\<close>

fun check_args :: "(string \<times> uctype) list \<Rightarrow> uctype list \<Rightarrow> sem_error + unit" where
  "check_args [] call_args = Inr ()"
| "check_args (p # ps) [] = Inl PythonError"
| "check_args (p # ps) (c # cs) =
     (if uc_str (snd p) \<noteq> uc_str c then Inl (SemanticError 18) else check_args ps cs)"

text \<open>
  \<open>visit_FuncCall\<close>; \<open>dname\<close> is \<open>node.declarator.name\<close>, which only an \<open>ID\<close> has; \<open>arguments\<close>
  is \<open>None\<close> or the outcome of visiting \<open>node.arguments\<close>.
\<close>

definition visit_FuncCall :: "symtab \<Rightarrow> string option \<Rightarrow> sem_error + annot \<Rightarrow> (sem_error + annot) option \<Rightarrow> sem_error + annot" where
  "visit_FuncCall st dname declarator arguments =
     (case declarator of
        Inl err \<Rightarrow> Inl err
      | Inr _ \<Rightarrow>
          (case dname of
             None \<Rightarrow> Inl PythonError
           | Some name \<Rightarrow>
               (case lookup_args name st of
                  None \<Rightarrow> Inl (SemanticError 16)
                | Some def_args \<Rightarrow>
                    (case uc_type_of declarator of
                       Inl err \<Rightarrow> Inl err
                     | Inr t \<Rightarrow>
                         (case arguments of
                            None \<Rightarrow> Inr (Typed t)
                          | Some (Inl err) \<Rightarrow> Inl err
                          | Some (Inr (Typed _)) \<Rightarrow> Inr (Typed t)
                          | Some (Inr (Untyped call_args)) \<Rightarrow>
                              if length call_args \<noteq> length def_args then Inl (SemanticError 17)
                              else (case check_args def_args call_args of
                                      Inl err \<Rightarrow> Inl err
                                    | Inr _ \<Rightarrow> Inr (Typed t)))))))"

text \<open>\<open>visit_ExprList\<close>: each child is visited and its \<open>uc_type\<close> read, in order.\<close>

fun visit_ExprList :: "(sem_error + annot) list \<Rightarrow> sem_error + annot" where
  "visit_ExprList [] = Inr (Untyped [])"
| "visit_ExprList (c # cs) =
     (case uc_type_of c of
        Inl err \<Rightarrow> Inl err
      | Inr t \<Rightarrow>
          (case visit_ExprList cs of
             Inr (Untyped ts) \<Rightarrow> Inr (Untyped (t # ts))
           | Inr (Typed _) \<Rightarrow> Inl PythonError
           | Inl err \<Rightarrow> Inl err))"

definition visit_Assignment :: "string \<Rightarrow> sem_error + annot \<Rightarrow> sem_error + annot \<Rightarrow> sem_error + annot" where
  "visit_Assignment opr lvalue rvalue =
     (case uc_type_of rvalue of
        Inl err \<Rightarrow> Inl err
      | Inr rtype \<Rightarrow>
          (case uc_type_of lvalue of
             Inl err \<Rightarrow> Inl err
           | Inr ltype \<Rightarrow>
               if uc_str ltype \<noteq> uc_str rtype then Inl (SemanticError 4)
               else if opr \<notin> type_assign_ops ltype then Inl (SemanticError 5)
               else Inr (Typed VoidType)))"

text \<open>\<open>NodeVisitor.visit\<close> on an expression: the dispatch on the class of the node.\<close>

fun visit :: "symtab \<Rightarrow> expr \<Rightarrow> sem_error + annot" where
  "visit st (Constant ty val) = visit_Constant ty val"
| "visit st (ID name) = visit_ID st name"
| "visit st (BinaryOp opr l r) = visit_BinaryOp opr (visit st l) (visit st r)"
| "visit st (UnaryOp opr e) = visit_UnaryOp opr (visit st e)"
| "visit st (Cast ty e) = visit_Cast ty (visit st e)"
| "visit st (ArrayRef a pos) = visit_ArrayRef (visit st a) (visit st pos)"
| "visit st (FuncCall d arguments) =
     visit_FuncCall st (case d of ID name \<Rightarrow> Some name | _ \<Rightarrow> None) (visit st d)
       (map_option (visit st) arguments)"
| "visit st (ExprList es) = visit_ExprList (map (visit st) es)"
| "visit st (Assignment opr l r) = visit_Assignment opr (visit st l) (visit st r)"

text \<open>
  \<open>visit_Print\<close>; \<open>print()\<close> has no expression. The type is checked for an identifier and for
  a call (there it is the declarator's type), and for no other kind of expression.
\<close>

definition print_types :: "string set" where
  "print_types = {''int'', ''char'', ''float'', ''string'', ''char[]''}"

definition visit_Print :: "symtab \<Rightarrow> expr option \<Rightarrow> sem_error + unit" where
  "visit_Print st e =
     (case e of
        None \<Rightarrow> Inr ()
      | Some child \<Rightarrow>
          (case visit st child of
             Inl err \<Rightarrow> Inl err
           | Inr a \<Rightarrow>
               (case child of
                  ID name \<Rightarrow>
                    (case uc_type_of (Inr a) of
                       Inl err \<Rightarrow> Inl err
                     | Inr t \<Rightarrow> if uc_str t \<in> print_types then Inr () else Inl (SemanticError 22))
                | FuncCall d arguments \<Rightarrow>
                    (case uc_type_of (visit st d) of
                       Inl err \<Rightarrow> Inl err
                     | Inr t \<Rightarrow> if uc_str t \<in> print_types then Inr () else Inl (SemanticError 21))
                | _ \<Rightarrow> Inr ())))"

subsection \<open>A symbol table for the examples\<close>

text \<open>
  The table inside a function after \<^verbatim>\<open>int x; int a[2][3]; bool b;\<close> and a function
  \<^verbatim>\<open>void g()\<close> in the outer scope.
\<close>

definition example_scope :: symtab where
  "example_scope =
     \<lparr>table = (\<lambda>_. None)
        (''g'' \<mapsto> Binding VoidType None,
         ''x'' \<mapsto> Binding IntType None,
         ''a'' \<mapsto> Binding (ArrayType (ArrayType IntType (Some (StrSize ''3''))) (Some (StrSize ''2''))) None,
         ''b'' \<mapsto> Binding BoolType None),
      args = (\<lambda>_. None)
        (''g'' \<mapsto> Binding (Some []) None,
         ''x'' \<mapsto> Binding None None,
         ''a'' \<mapsto> Binding None None,
         ''b'' \<mapsto> Binding None None),
      scope = [[''g''], [''x'', ''a'', ''b'']]\<rparr>"

section \<open>IR generator (uc\_code.py, class CodeGenerator)\<close>

text \<open>
  The generator walks the AST that the semantic visitor has annotated; it reads the
  \<open>uc_type\<close> of nodes. The typed expressions below carry that annotation as their first
  field. The model covers the expression nodes \<open>Constant\<close>, \<open>ID\<close>, \<open>BinaryOp\<close>, \<open>UnaryOp\<close>,
  \<open>Cast\<close>, \<open>ArrayRef\<close> of an identifier (the one-dimensional case of \<open>visit_ArrayRef\<close>),
  \<open>FuncCall\<close> and \<open>Assignment\<close>. A constant holds its value as \<open>visit_Constant\<close> converts it
  (\<open>int(value)\<close>, \<open>float(value)\<close>, or the text itself). The arguments of a call are \<open>None\<close> or a
  single expression (\<open>TFuncCall\<close>) or an \<open>ExprList\<close> (\<open>TFuncCallList\<close>).
\<close>

datatype texpr =
    TConstant uctype string operand
  | TID uctype string
  | TBinaryOp uctype string texpr texpr
  | TUnaryOp uctype string texpr
  | TCast uctype string texpr
  | TArrayRef uctype string texpr
  | TFuncCall uctype string uctype "texpr option"
  | TFuncCallList uctype string uctype "texpr list"
  | TAssignment uctype string texpr texpr

fun uc_type :: "texpr \<Rightarrow> uctype" where
  "uc_type (TConstant t _ _) = t"
| "uc_type (TID t _) = t"
| "uc_type (TBinaryOp t _ _ _) = t"
| "uc_type (TUnaryOp t _ _) = t"
| "uc_type (TCast t _ _) = t"
| "uc_type (TArrayRef t _ _) = t"
| "uc_type (TFuncCall t _ _ _) = t"
| "uc_type (TFuncCallList t _ _ _) = t"
| "uc_type (TAssignment t _ _ _) = t"

text \<open>The dict \<open>binary_ops\<close> of uc\_code.py, from operator to opcode stem.\<close>

definition binop_name :: "string \<Rightarrow> string option" where
  "binop_name opr =
     map_of [(''+'', ''add''), (''-'', ''sub''), (''*'', ''mul''), (''/'', ''div''), (''%'', ''mod''),
             (''<'', ''lt''), (''<='', ''le''), (''>'', ''gt''), (''>='', ''ge''), (''=='', ''eq''),
             (''&&'', ''and''), (''||'', ''or''), (''!='', ''ne'')] opr"

text \<open>\<open>str(t).split('[')[0]\<close>\<close>

definition basic_name :: "uctype \<Rightarrow> string" where
  "basic_name t = takeWhile (\<lambda>c. c \<noteq> CHR ''['') (uc_str t)"

text \<open>
  The generator's fields. The blocks linked so far by \<open>next_block\<close> are \<open>finished\<close> followed
  by \<open>current_block\<close>; \<open>next_bid\<close> numbers the block objects as they are created.
\<close>

record gen =
  finished :: "block list"
  current_block :: "block option"
  versions :: "(string \<times> nat) list"
  gen_text :: "inst list"
  globals :: "string list"
  fname :: string
  loop_pile :: "string list"
  return_register :: "string option"
  next_bid :: nat

text \<open>\<open>CodeGenerator.__init__\<close>: the current block is a new block \<open>%global\<close>.\<close>

definition gen_init :: gen where
  "gen_init =
     \<lparr>finished = [], current_block = Some (new_block BasicBlock 0 ''%global''),
      versions = [(''_glob_'', 0)], gen_text = [], globals = [], fname = ''_glob_'',
      loop_pile = [], return_register = None, next_bid = 1\<rparr>"

text \<open>\<open>self.current_block.append(inst)\<close>\<close>

definition emit :: "inst \<Rightarrow> gen \<Rightarrow> gen option" where
  "emit i g =
     (case current_block g of
        None \<Rightarrow> None
      | Some b \<Rightarrow> Some (g\<lparr>current_block := Some (b\<lparr>instructions := instructions b @ [i]\<rparr>)\<rparr>))"

definition new_temp :: "gen \<Rightarrow> string \<times> gen" where
  "new_temp g =
     (let v = (case map_of (versions g) (fname g) of None \<Rightarrow> 1 | Some n \<Rightarrow> n)
      in (''%'' @ str_nat v, g\<lparr>versions := AList.update (fname g) (v + 1) (versions g)\<rparr>))"

definition new_name :: "string \<Rightarrow> gen \<Rightarrow> string \<times> gen" where
  "new_name nm g =
     (case map_of (versions g) nm of
        Some (Suc n) \<Rightarrow>
          (nm @ ''.'' @ str_nat (Suc (Suc n)),
           g\<lparr>versions := AList.update nm (Suc (Suc n)) (versions g)\<rparr>)
      | _ \<Rightarrow> (nm, g\<lparr>versions := AList.update nm 1 (versions g)\<rparr>))"

definition new_text :: "string \<Rightarrow> gen \<Rightarrow> (string \<times> gen) option" where
  "new_text typename g =
     (case map_of (versions g) ''_glob_'' of
        None \<Rightarrow> None
      | Some n \<Rightarrow>
          Some (''@.'' @ typename @ ''.'' @ str_nat n,
                g\<lparr>versions := AList.update ''_glob_'' (n + 1) (versions g)\<rparr>))"

definition get_origin :: "gen \<Rightarrow> string \<Rightarrow> string" where
  "get_origin g name = (if name \<in> set (globals g) then ''@'' @ name else ''%'' @ name)"

text \<open>
  A visit of an expression gives the node's \<open>gen_location\<close> (\<open>None\<close> for an \<open>Assignment\<close>, which
  has none: reading it raises) and the generator after the visit; \<open>visit_ArrayRef\<close> also
  sets \<open>mem_location\<close>, the second component.
\<close>

type_synonym visited = "(string option \<times> string option \<times> gen) option"

definition located :: "visited \<Rightarrow> (string \<times> gen) option" where
  "located r = (case r of Some (Some loc, _, g) \<Rightarrow> Some (loc, g) | _ \<Rightarrow> None)"

definition visit_TConstant :: "string \<Rightarrow> operand \<Rightarrow> gen \<Rightarrow> visited" where
  "visit_TConstant ty val g =
     (if ty = ''string''
      then (case new_text ''str'' g of
              None \<Rightarrow> None
            | Some (target, g1) \<Rightarrow>
                Some (Some target, None,
                      g1\<lparr>gen_text := gen_text g1 @ [(''global_string'', [VStr target, val])]\<rparr>))
      else (case new_temp g of
              (target, g1) \<Rightarrow>
                map_option (\<lambda>g2. (Some target, None, g2))
                  (emit (''literal_'' @ ty, [val, VStr target]) g1)))"

definition visit_TID :: "uctype \<Rightarrow> string \<Rightarrow> gen \<Rightarrow> visited" where
  "visit_TID t name g =
     (case new_temp g of
        (target, g1) \<Rightarrow>
          map_option (\<lambda>g2. (Some target, None, g2))
            (emit (''load_'' @ uc_str t, [VStr (get_origin g1 name), VStr target]) g1))"

section \<open>Symbol table: scopes restore bindings\<close>

lemma py_index_last: "py_index (Suc n) (- 1) = Some n"
  by (simp add: py_index_def)

lemma add_begin:
  "add n v a (- 1) (beginscope st) =
     Some (st\<lparr>table := (table st)(n \<mapsto> Binding v (table st n)),
              args := (args st)(n \<mapsto> Binding a (args st n)),
              scope := scope st @ [[n]]\<rparr>)"
  by (simp add: add_def beginscope_def py_index_last nth_append)

lemma scope_roundtrip:
  "add n v a (- 1) (beginscope st) = Some st1 \<Longrightarrow> endscope st1 = Some st"
  by (auto simp: add_begin endscope_def remove_name_def)

lemma depth_pos: "0 < depth b"
  by (induction b rule: depth.induct) auto

lemma depth_opt_0: "depth_opt b = 0 \<longleftrightarrow> b = None"
  using depth_pos by (cases b) (auto simp: depth_opt_def)

lemma depth_opt_Binding: "depth_opt (Some (Binding v p)) = Suc (depth_opt p)"
  by (cases p) (auto simp: depth_opt_def)

lemma table_remove_name:
  "table (remove_name x st) n =
     (if n = x then (case table st x of Some (Binding _ p) \<Rightarrow> p | None \<Rightarrow> None) else table st n)"
  by (auto simp: remove_name_def Let_def split: option.splits binding.splits)

lemma depth_remove_name:
  "depth_opt (table (remove_name x st) n) = depth_opt (table st n) - (if n = x then 1 else 0)"
  by (auto simp: table_remove_name depth_opt_Binding split: option.splits binding.splits)
     (simp add: depth_opt_def)

lemma scope_remove_name: "scope (remove_name x st) = scope st"
  by (auto simp: remove_name_def Let_def split: option.splits binding.splits)

lemma depth_fold_remove:
  "depth_opt (table (fold remove_name xs st) n) = depth_opt (table st n) - count_list xs n"
  by (induction xs arbitrary: st) (auto simp: depth_remove_name)

lemma agree_init: "scopes_agree SymbolTable_init"
  by (simp add: scopes_agree_def SymbolTable_init_def depth_opt_def)

lemma agree_begin: "scopes_agree st \<Longrightarrow> scopes_agree (beginscope st)"
  by (simp add: scopes_agree_def beginscope_def)

lemma count_concat_upd:
  "k < length xss \<Longrightarrow>
   count_list (concat (xss[k := xss ! k @ [x]])) n = count_list (concat xss) n + (if n = x then 1 else 0)"
proof (induction xss arbitrary: k)
  case Nil then show ?case by simp
next
  case (Cons a xss)
  then show ?case by (cases k) auto
qed

lemma agree_add: "scopes_agree st \<Longrightarrow> add x v a scp st = Some st' \<Longrightarrow> scopes_agree st'"
  by (auto simp: scopes_agree_def add_def py_index_def Let_def count_concat_upd depth_opt_Binding
           split: option.splits if_splits)

lemma count_concat_last:
  "xss \<noteq> [] \<Longrightarrow> count_list (concat xss) n = count_list (concat (butlast xss)) n + count_list (last xss) n"
  by (induction xss) auto

lemma agree_end: "scopes_agree st \<Longrightarrow> endscope st = Some st' \<Longrightarrow> scopes_agree st'"
  by (auto simp: scopes_agree_def endscope_def depth_fold_remove count_concat_last split: if_splits)

lemma reachable_agree: "reachable st \<Longrightarrow> scopes_agree st"
  by (induction rule: reachable.induct) (auto intro: agree_init agree_begin agree_add agree_end)

lemma agree_bound: "scopes_agree st \<Longrightarrow> table st n \<noteq> None \<longleftrightarrow> n \<in> set (concat (scope st))"
  by (metis scopes_agree_def depth_opt_0 count_list_0_iff)

lemma set_concat_last:
  "xss \<noteq> [] \<Longrightarrow> set (concat xss) = set (concat (butlast xss)) \<union> set (last xss)"
  by (induction xss) auto

text \<open>
  C7. From any symbol table state, \<open>beginscope(); add(n, v); endscope()\<close> succeeds and
  gives back the state it started from, so \<open>lookup\<close> and \<open>lookup_args\<close> of every name
  (of \<open>n\<close> in particular) are what they were before \<open>beginscope\<close>. In every reachable
  state with at least one open scope, \<open>declared(n)\<close> is \<open>-2\<close> exactly when \<open>n\<close> is in the
  innermost scope's name list, \<open>-1\<close> exactly when it is only in an outer scope's list, and
  \<open>0\<close> exactly when it is in none. (With no open scope, \<open>declared\<close> raises IndexError.)
\<close>

theorem symtab_scope_discipline:
  "(\<exists>st1. add n v a (- 1) (beginscope st) = Some st1 \<and> endscope st1 = Some st)
   \<and> (\<forall>st1 st2. add n v a (- 1) (beginscope st) = Some st1 \<longrightarrow> endscope st1 = Some st2 \<longrightarrow>
          lookup m st2 = lookup m st \<and> lookup_args m st2 = lookup_args m st)
   \<and> (reachable st \<longrightarrow>
        declared n st =
          (if scope st = [] then None
           else Some (if n \<in> set (last (scope st)) then - 2
                      else if n \<in> set (concat (butlast (scope st))) then - 1
                      else 0)))"
proof (intro conjI allI impI)
  show "\<exists>st1. add n v a (- 1) (beginscope st) = Some st1 \<and> endscope st1 = Some st"
    using scope_roundtrip[of n v a st] by (simp add: add_begin)
next
  fix st1 st2
  assume "add n v a (- 1) (beginscope st) = Some st1" and "endscope st1 = Some st2"
  then have "st2 = st" using scope_roundtrip[of n v a st st1] by simp
  then show "lookup m st2 = lookup m st" and "lookup_args m st2 = lookup_args m st" by simp_all
next
  assume r: "reachable st"
  have b: "table st n \<noteq> None \<longleftrightarrow> n \<in> set (concat (scope st))"
    using agree_bound[OF reachable_agree[OF r]] .
  show "declared n st =
          (if scope st = [] then None
           else Some (if n \<in> set (last (scope st)) then - 2
                      else if n \<in> set (concat (butlast (scope st))) then - 1
                      else 0))"
  proof (cases "scope st = []")
    case True then show ?thesis by (simp add: declared_def)
  next
    case False
    have "n \<in> set (concat (scope st)) \<longleftrightarrow>
            n \<in> set (concat (butlast (scope st))) \<or> n \<in> set (last (scope st))"
      using set_concat_last[OF False] by blast
    with False b show ?thesis by (auto simp: declared_def simp del: set_concat)
  qed
qed


lemma example_symtab_reachable: "reachable example_symtab"
proof -
  let ?s1 = "beginscope (SymbolTable_init :: (nat, nat) SymbolTable)"
  have r1: "reachable ?s1" by (intro reach_begin reach_init)
  obtain s2 where s2: "add ''x'' (1::nat) (None :: nat option) (- 1) ?s1 = Some s2"
    by (simp add: add_begin)
  have r2: "reachable (beginscope s2)" by (intro reach_begin reach_add[OF r1 s2])
  have "add ''y'' (2::nat) (None :: nat option) (- 1) (beginscope s2) = Some example_symtab"
    using s2 by (auto simp: add_begin example_symtab_def SymbolTable_init_def)
  then show ?thesis by (rule reach_add[OF r2])
qed

theorem symtab_scope_discipline_witness:
  "reachable example_symtab
   \<and> declared ''y'' example_symtab = Some (- 2)
   \<and> declared ''x'' example_symtab = Some (- 1)
   \<and> declared ''z'' example_symtab = Some 0
   \<and> (\<exists>st1. add ''x'' (7::nat) None (- 1) (beginscope example_symtab) = Some st1
          \<and> endscope st1 = Some example_symtab \<and> lookup ''x'' st1 = Some 7)
   \<and> lookup ''x'' example_symtab = Some 1"
proof -
  note r = example_symtab_reachable
  have sc: "scope example_symtab = [[''x''], [''y'']]" by (simp add: example_symtab_def)
  have y: "declared ''y'' example_symtab = Some (- 2)"
    using symtab_scope_discipline[of "''y''" "2::nat" "None::nat option" example_symtab "''x''"] r
    by (simp add: sc)
  have x: "declared ''x'' example_symtab = Some (- 1)"
    using symtab_scope_discipline[of "''x''" "7::nat" "None::nat option" example_symtab "''x''"] r
    by (simp add: sc)
  have z: "declared ''z'' example_symtab = Some 0"
    using symtab_scope_discipline[of "''z''" "2::nat" "None::nat option" example_symtab "''x''"] r
    by (simp add: sc)
  have rt: "\<exists>st1. add ''x'' (7::nat) None (- 1) (beginscope example_symtab) = Some st1
          \<and> endscope st1 = Some example_symtab \<and> lookup ''x'' st1 = Some 7"
    using symtab_scope_discipline[of "''x''" "7::nat" "None::nat option" example_symtab "''x''"]
    by (auto simp: add_begin lookup_def)
  have l: "lookup ''x'' example_symtab = Some 1"
    by (simp add: lookup_def example_symtab_def)
  from r y x z rt l show ?thesis by blast
qed

section \<open>Numbering and per-instruction gen/kill\<close>

lemma prefix_comparable:
  assumes "startswith s p" and "startswith s q"
  shows "startswith p q \<or> startswith q p"
proof (cases "length q \<le> length p")
  case True
  have "take (length q) p = take (length q) (take (length p) s)"
    using assms(1) by (simp add: startswith_def)
  also have "\<dots> = take (length q) s" using True by (simp add: min_def)
  finally show ?thesis using assms(2) by (simp add: startswith_def)
next
  case False
  have "take (length p) q = take (length p) (take (length q) s)"
    using assms(2) by (simp add: startswith_def)
  also have "\<dots> = take (length p) s" using False by (simp add: min_def)
  finally show ?thesis using assms(1) by (simp add: startswith_def)
qed

lemma disjoint_prefixes:
  assumes "\<forall>p \<in> set ps. \<forall>q \<in> set qs. \<not> startswith p q \<and> \<not> startswith q p"
      and "\<exists>p \<in> set ps. startswith s p" and "\<exists>q \<in> set qs. startswith s q"
  shows False
  using assms prefix_comparable by blast

lemma chain_op_prefixes:
  "chain_op opc \<longleftrightarrow>
     (\<exists>p \<in> set [''store'', ''literal'', ''load'', ''call'', ''not_'', ''sitofp'', ''fptosi'']. startswith opc p)"
  by (simp add: chain_op_def)

lemma binop_not_chain: "is_binop opc \<Longrightarrow> \<not> chain_op opc"
proof
  assume b: "is_binop opc" and c: "chain_op opc"
  have "\<forall>p \<in> set [''store'', ''literal'', ''load'', ''call'', ''not_'', ''sitofp'', ''fptosi''].
          \<forall>q \<in> set binary_ops. \<not> startswith p q \<and> \<not> startswith q p"
    by (simp add: binary_ops_def startswith_def)
  then show False
    using disjoint_prefixes c[unfolded chain_op_prefixes] b[unfolded is_binop_def] by blast
qed

lemma elem_define_not_defining:
  assumes "startswith opc ''elem'' \<or> startswith opc ''define''"
  shows "\<not> chain_op opc \<and> \<not> is_binop opc"
proof -
  have e: "\<exists>p \<in> set [''elem'', ''define'']. startswith opc p" using assms by auto
  have d1: "\<forall>p \<in> set [''elem'', ''define''].
          \<forall>q \<in> set [''store'', ''literal'', ''load'', ''call'', ''not_'', ''sitofp'', ''fptosi''].
             \<not> startswith p q \<and> \<not> startswith q p"
    by (simp add: startswith_def)
  have d2: "\<forall>p \<in> set [''elem'', ''define''].
          \<forall>q \<in> set binary_ops. \<not> startswith p q \<and> \<not> startswith q p"
    by (simp add: binary_ops_def startswith_def)
  have "\<not> chain_op opc"
    unfolding chain_op_prefixes using disjoint_prefixes[OF d1 e] by blast
  moreover have "\<not> is_binop opc"
    unfolding is_binop_def using disjoint_prefixes[OF d2 e] by blast
  ultimately show ?thesis by simp
qed

lemma binop_unique:
  assumes "b \<in> set binary_ops" and "b' \<in> set binary_ops"
      and "startswith opc b" and "startswith opc b'"
  shows "b = b'"
proof -
  have "\<forall>x \<in> set binary_ops. \<forall>y \<in> set binary_ops. startswith x y \<longrightarrow> x = y"
    by (simp add: binary_ops_def startswith_def)
  then show ?thesis using prefix_comparable[OF assms(3,4)] assms(1,2) by metis
qed

text \<open>A fold that replaces the accumulator at the one matching element.\<close>

lemma fold_no_match:
  "\<forall>b \<in> set bs. \<not> P b \<Longrightarrow>
   fold (\<lambda>b r. case r of None \<Rightarrow> None | Some d \<Rightarrow> if P b then g d else Some d) bs r = r"
  by (induction bs arbitrary: r) (auto split: option.splits)

lemma fold_one_match:
  assumes "distinct bs" and "\<And>b b'. b \<in> set bs \<Longrightarrow> b' \<in> set bs \<Longrightarrow> P b \<Longrightarrow> P b' \<Longrightarrow> b = b'"
  shows "fold (\<lambda>b r. case r of None \<Rightarrow> None | Some d \<Rightarrow> if P b then g d else Some d) bs (Some d)
         = (if \<exists>b \<in> set bs. P b then g d else Some d)"
  using assms
proof (induction bs)
  case Nil
  then show ?case by simp
next
  case (Cons a bs)
  show ?case
  proof (cases "P a")
    case True
    then have "\<forall>b \<in> set bs. \<not> P b" using Cons.prems by auto
    then show ?thesis using True by (simp add: fold_no_match)
  next
    case False
    then show ?thesis using Cons by auto
  qed
qed

lemma distinct_binary_ops: "distinct binary_ops"
  by (simp add: binary_ops_def)

lemma defs_binops_eq:
  "defs_binops i n d =
     (if is_binop (fst i) then map_option (\<lambda>v. add_to_defs v n d) (name_arg i 3) else Some d)"
  unfolding defs_binops_def is_binop_def
  by (rule fold_one_match[OF distinct_binary_ops]) (rule binop_unique)

lemma instruction_gen_kill_eq:
  "instruction_gen_kill dm i n =
     (if chain_op (fst i) then gen_kill_at dm i 2 n
      else if is_binop (fst i) then gen_kill_at dm i 3 n
      else Some ([], []))"
proof (cases "chain_op (fst i)")
  case True
  then have nb: "\<forall>b \<in> set binary_ops. \<not> startswith (fst i) b"
    using binop_not_chain by (auto simp: is_binop_def)
  show ?thesis
    using True unfolding instruction_gen_kill_def Let_def chain_op_def[symmetric]
    by (simp add: fold_no_match[OF nb] chain_op_def)
next
  case False
  have "fold (\<lambda>b r. case r of None \<Rightarrow> None
                    | Some gk \<Rightarrow> if startswith (fst i) b then gen_kill_at dm i 3 n else Some gk)
             binary_ops (Some ([], []))
        = (if \<exists>b \<in> set binary_ops. startswith (fst i) b then gen_kill_at dm i 3 n else Some ([], []))"
    by (rule fold_one_match[OF distinct_binary_ops]) (rule binop_unique)
  then show ?thesis
    using False unfolding instruction_gen_kill_def Let_def
    by (simp add: chain_op_def is_binop_def)
qed

lemma dl_add_to_defs:
  "dl (add_to_defs x n d) v = dl d v @ (if v = x then [n] else [])"
  by (auto simp: dl_def add_to_defs_def update_conv' split: option.splits)

lemma dl_nonempty_Some: "dl d v \<noteq> [] \<Longrightarrow> map_of d v = Some (dl d v)"
  by (auto simp: dl_def split: option.splits)

lemma dl_fold_params:
  "\<exists>k. dl (fold (\<lambda>p d. add_to_defs (snd p) n d) ps d) v = dl d v @ replicate k n"
proof (induction ps arbitrary: d)
  case Nil
  show ?case by (rule exI[of _ 0]) simp
next
  case (Cons p ps)
  obtain k where k: "dl (fold (\<lambda>p d. add_to_defs (snd p) n d) ps (add_to_defs (snd p) n d)) v
                     = dl (add_to_defs (snd p) n d) v @ replicate k n"
    using Cons.IH by blast
  show ?case
  proof (cases "v = snd p")
    case True
    then have "dl (fold (\<lambda>p d. add_to_defs (snd p) n d) (p # ps) d) v = dl d v @ replicate (Suc k) n"
      using k by (simp add: dl_add_to_defs replicate_app_Cons_same)
    then show ?thesis by blast
  next
    case False
    then show ?thesis using k by (auto simp: dl_add_to_defs)
  qed
qed

text \<open>What one instruction does to the definition map.\<close>

lemma defs_inst_extends:
  assumes "defs_inst i n d = Some d'"
  shows "\<exists>k. dl d' v = dl d v @ replicate k n"
proof -
  have one: "\<And>x. \<exists>k. dl (add_to_defs x n d) v = dl d v @ replicate k n"
  proof -
    fix x show "\<exists>k. dl (add_to_defs x n d) v = dl d v @ replicate k n"
      by (cases "v = x") (auto simp: dl_add_to_defs intro: exI[of _ "Suc 0"] exI[of _ 0])
  qed
  show ?thesis
  proof (cases "is_binop (fst i)")
    case True
    then have nc: "\<not> chain_op (fst i)" by (rule binop_not_chain)
    have ne: "\<not> startswith (fst i) ''elem''" and nd: "\<not> startswith (fst i) ''define''"
      using True elem_define_not_defining by blast+
    from nc ne nd have "defs_chain i n d = Some d"
      by (auto simp: defs_chain_def Let_def chain_op_def)
    then show ?thesis using assms True one
      by (auto simp: defs_inst_def defs_binops_eq)
  next
    case False
    then have "defs_chain i n d = Some d'"
      using assms by (auto simp: defs_inst_def defs_binops_eq split: option.splits)
    then show ?thesis using one dl_fold_params[of n _ d v]
      by (auto simp: defs_chain_def Let_def split: if_splits option.splits operand.splits
               intro: exI[of _ 0])
  qed
qed

lemma defs_inst_chain:
  assumes "defs_inst i n d = Some d'" and "chain_op (fst i)"
  shows "\<exists>v. name_arg i 2 = Some v \<and> dl d' v = dl d v @ [n]"
proof -
  have nb: "\<not> is_binop (fst i)" using assms(2) binop_not_chain by blast
  then have "defs_chain i n d = Some d'"
    using assms by (auto simp: defs_inst_def defs_binops_eq split: option.splits)
  then show ?thesis using assms(2)
    by (auto simp: defs_chain_def Let_def chain_op_def dl_add_to_defs split: if_splits)
qed

lemma defs_inst_binop:
  assumes "defs_inst i n d = Some d'" and "is_binop (fst i)"
  shows "\<exists>v. name_arg i 3 = Some v \<and> dl d' v = dl d v @ [n]"
proof -
  have nc: "\<not> chain_op (fst i)" using assms(2) by (rule binop_not_chain)
  have ne: "\<not> startswith (fst i) ''elem''" and nd: "\<not> startswith (fst i) ''define''"
    using assms(2) elem_define_not_defining by blast+
  from nc ne nd have "defs_chain i n d = Some d"
    by (auto simp: defs_chain_def Let_def chain_op_def)
  then show ?thesis using assms
    by (auto simp: defs_inst_def defs_binops_eq dl_add_to_defs)
qed

lemma set_update_subset: "set (AList.update k v al) \<subseteq> insert (k, v) (set al)"
  by (induction al) auto

lemma count_list_append: "count_list (xs @ ys) x = count_list xs x + count_list ys x"
  by (induction xs) auto

lemma count_list_replicate: "count_list (replicate k n) j = (if j = n then k else 0)"
  by (induction k) auto

lemma numbered_ok_step:
  assumes ok: "numbered_ok st" and d: "defs_inst i (index st) (defs st) = Some d"
  shows "numbered_ok (st\<lparr>labeled_code := AList.update (index st) i (labeled_code st),
                          defs := d, index := index st + 1\<rparr>)"
proof -
  let ?n = "index st"
  have ext: "\<And>v. \<exists>k. dl d v = dl (defs st) v @ replicate k ?n"
    using defs_inst_extends[OF d] .
  have bound: "\<And>v j. j \<in> set (dl (defs st) v) \<Longrightarrow> j < ?n"
    using ok by (auto simp: numbered_ok_def)
  have b': "\<forall>v. \<forall>j \<in> set (dl d v). j < ?n + 1"
  proof (intro allI ballI)
    fix v j assume j: "j \<in> set (dl d v)"
    obtain k where "dl d v = dl (defs st) v @ replicate k ?n" using ext by blast
    with j bound[of j v] show "j < ?n + 1" by (auto split: if_splits)
  qed
  have old: "\<And>v j. j < ?n \<Longrightarrow> count_list (dl d v) j = count_list (dl (defs st) v) j"
  proof -
    fix v j assume "j < ?n"
    obtain k where "dl d v = dl (defs st) v @ replicate k ?n" using ext by blast
    with \<open>j < ?n\<close> show "count_list (dl d v) j = count_list (dl (defs st) v) j"
      by (simp add: count_list_append count_list_replicate)
  qed
  have fresh: "\<And>v. count_list (dl (defs st) v) ?n = 0"
    using bound by (fastforce simp: count_list_0_iff)
  have new: "(chain_op (fst i) \<longrightarrow> (\<exists>v. name_arg i 2 = Some v \<and> count_list (dl d v) ?n = 1)) \<and>
             (is_binop (fst i) \<longrightarrow> (\<exists>v. name_arg i 3 = Some v \<and> count_list (dl d v) ?n = 1))"
    using defs_inst_chain[OF d] defs_inst_binop[OF d] fresh
    by (auto simp: count_list_append)
  have r': "\<forall>(j, x) \<in> set (AList.update ?n i (labeled_code st)).
         j < ?n + 1 \<and>
         (chain_op (fst x) \<longrightarrow> (\<exists>v. name_arg x 2 = Some v \<and> count_list (dl d v) j = 1)) \<and>
         (is_binop (fst x) \<longrightarrow> (\<exists>v. name_arg x 3 = Some v \<and> count_list (dl d v) j = 1))"
  proof (intro ballI, clarify)
    fix j x assume "(j, x) \<in> set (AList.update ?n i (labeled_code st))"
    then consider "j = ?n" "x = i" | "(j, x) \<in> set (labeled_code st)"
      using set_update_subset by fastforce
    then show "j < ?n + 1 \<and>
         (chain_op (fst x) \<longrightarrow> (\<exists>v. name_arg x 2 = Some v \<and> count_list (dl d v) j = 1)) \<and>
         (is_binop (fst x) \<longrightarrow> (\<exists>v. name_arg x 3 = Some v \<and> count_list (dl d v) j = 1))"
    proof cases
      case 1
      then show ?thesis using new by simp
    next
      case 2
      then have "j < ?n" and
        "chain_op (fst x) \<longrightarrow> (\<exists>v. name_arg x 2 = Some v \<and> count_list (dl (defs st) v) j = 1)" and
        "is_binop (fst x) \<longrightarrow> (\<exists>v. name_arg x 3 = Some v \<and> count_list (dl (defs st) v) j = 1)"
        using ok by (auto simp: numbered_ok_def)
      then show ?thesis using old by auto
    qed
  qed
  from b' r' show ?thesis by (simp add: numbered_ok_def)
qed

lemma number_block_ok:
  "numbered_ok st \<Longrightarrow> number_block is bb st = Some (bb', st') \<Longrightarrow> numbered_ok st'"
proof (induction "is" arbitrary: bb st)
  case Nil
  then show ?case by simp
next
  case (Cons i "is")
  from Cons.prems(2) obtain d where d: "defs_inst i (index st) (defs st) = Some d"
    by (auto split: option.splits)
  show ?case
    using Cons.IH[OF numbered_ok_step[OF Cons.prems(1) d]] Cons.prems(2) d by simp
qed

lemma number_blocks_ok:
  "numbered_ok st \<Longrightarrow> number_blocks bs st = Some (bs', st') \<Longrightarrow> numbered_ok st'"
proof (induction bs arbitrary: st bs')
  case Nil
  then show ?case by simp
next
  case (Cons b bs)
  from Cons.prems(2) obtain b' st1 bs1 where
    1: "number_block (instructions b) b st = Some (b', st1)" and
    2: "number_blocks bs st1 = Some (bs1, st')"
    by (auto split: option.splits)
  show ?case by (rule Cons.IH[OF number_block_ok[OF Cons.prems(1) 1] 2])
qed

lemma number_instructions_ok:
  "number_instructions [] bs = Some (bs', st) \<Longrightarrow> numbered_ok st"
  unfolding number_instructions_def
  by (rule number_blocks_ok[rotated]) (auto simp: numbered_ok_def dl_def)

lemma set_remove1_once: "count_list l j = 1 \<Longrightarrow> set (remove1 j l) = set l - {j}"
proof (induction l)
  case Nil
  then show ?case by simp
next
  case (Cons a l)
  show ?case
  proof (cases "a = j")
    case True
    then have "count_list l j = 0" using Cons.prems by simp
    then have "j \<notin> set l" by (simp add: count_list_0_iff)
    then show ?thesis using True by auto
  next
    case False
    then show ?thesis using Cons by auto
  qed
qed

lemma gen_kill_at_once:
  assumes "name_arg i k = Some v" and "count_list (dl dm v) j = 1"
  shows "\<exists>l kill. map_of dm v = Some l \<and> gen_kill_at dm i k j = Some ([j], kill) \<and> set kill = set l - {j}"
proof -
  have "j \<in> set (dl dm v)" using assms(2) count_list_0_iff[of "dl dm v" j] by auto
  then have "dl dm v \<noteq> []" by auto
  then have s: "map_of dm v = Some (dl dm v)" by (rule dl_nonempty_Some)
  show ?thesis
    using s assms \<open>j \<in> set (dl dm v)\<close> set_remove1_once[OF assms(2)]
    by (auto simp: gen_kill_at_def)
qed

text \<open>
  What \<open>instruction_gen_kill\<close> returns on a numbered list for the opcode families it has
  a branch for. After \<open>number_instructions\<close> on an empty definition map, for the
  instruction at index \<open>j\<close>: if its opcode starts with \<open>store\<close>, \<open>literal\<close>, \<open>load\<close>,
  \<open>call\<close>, \<open>not_\<close>, \<open>sitofp\<close> or \<open>fptosi\<close> (target \<open>inst[2]\<close>) or with a binary operation
  (target \<open>inst[3]\<close>), then \<open>gen = [j]\<close> and the elements of \<open>kill\<close> are those of the
  target's definition list other than \<open>j\<close>.
\<close>

lemma gen_kill_of_numbered:
  assumes "number_instructions [] bs = Some (bs', st)"
      and "(j, i) \<in> set (labeled_code st)"
  shows "(chain_op (fst i) \<longrightarrow>
            (\<exists>x l kill. name_arg i 2 = Some x \<and> map_of (defs st) x = Some l \<and>
               instruction_gen_kill (defs st) i j = Some ([j], kill) \<and> set kill = set l - {j}))
       \<and> (is_binop (fst i) \<longrightarrow>
            (\<exists>x l kill. name_arg i 3 = Some x \<and> map_of (defs st) x = Some l \<and>
               instruction_gen_kill (defs st) i j = Some ([j], kill) \<and> set kill = set l - {j}))"
proof -
  have ok: "numbered_ok st" using assms(1) by (rule number_instructions_ok)
  have c: "chain_op (fst i) \<longrightarrow> (\<exists>v. name_arg i 2 = Some v \<and> count_list (dl (defs st) v) j = 1)"
   and b: "is_binop (fst i) \<longrightarrow> (\<exists>v. name_arg i 3 = Some v \<and> count_list (dl (defs st) v) j = 1)"
    using ok assms(2) by (auto simp: numbered_ok_def)
  show ?thesis
  proof (intro conjI impI)
    assume h: "chain_op (fst i)"
    then obtain v where "name_arg i 2 = Some v" "count_list (dl (defs st) v) j = 1" using c by blast
    then show "\<exists>x l kill. name_arg i 2 = Some x \<and> map_of (defs st) x = Some l \<and>
               instruction_gen_kill (defs st) i j = Some ([j], kill) \<and> set kill = set l - {j}"
      using gen_kill_at_once[of i 2 v "defs st" j] h by (auto simp: instruction_gen_kill_eq)
  next
    assume h: "is_binop (fst i)"
    then obtain v where "name_arg i 3 = Some v" "count_list (dl (defs st) v) j = 1" using b by blast
    then show "\<exists>x l kill. name_arg i 3 = Some x \<and> map_of (defs st) x = Some l \<and>
               instruction_gen_kill (defs st) i j = Some ([j], kill) \<and> set kill = set l - {j}"
      using gen_kill_at_once[of i 3 v "defs st" j] h binop_not_chain[OF h]
      by (auto simp: instruction_gen_kill_eq)
  qed
qed

text \<open>
  \<open>instruction_gen_kill\<close> has no branch for \<open>elem\<close> or \<open>define\<close>: whatever the definition
  map holds, both lists stay empty.
\<close>

lemma elem_define_gen_kill_empty:
  assumes "startswith (fst i) ''elem'' \<or> startswith (fst i) ''define''"
  shows "instruction_gen_kill dm i j = Some ([], [])"
  using assms elem_define_not_defining by (simp add: instruction_gen_kill_eq)

lemma gen_kill_example_numbered:
  "map_option snd (number_instructions [] gen_kill_example) = Some gen_kill_example_numbering"
  by (simp add: number_instructions_def gen_kill_example_def new_block_def
        gen_kill_example_numbering_def defs_inst_def defs_chain_def defs_binops_def
        binary_ops_def startswith_def name_arg_def arg_def add_to_defs_def)

lemma gen_kill_example_store_add:
  "(\<exists>kill. instruction_gen_kill (defs gen_kill_example_numbering)
                  (''store_int'', [VStr ''%2'', VStr ''%x'']) 8 = Some ([8], kill)
               \<and> set kill = {6})
   \<and> (\<exists>kill. instruction_gen_kill (defs gen_kill_example_numbering)
                  (''add_int'', [VStr ''%3'', VStr ''%4'', VStr ''%5'']) 11 = Some ([11], kill)
               \<and> set kill = {})"
proof -
  let ?N = gen_kill_example_numbering
  let ?s = "(''store_int'', [VStr ''%2'', VStr ''%x''])"
  let ?a = "(''add_int'', [VStr ''%3'', VStr ''%4'', VStr ''%5''])"
  obtain bs' where n: "number_instructions [] gen_kill_example = Some (bs', ?N)"
    using gen_kill_example_numbered by (cases "number_instructions [] gen_kill_example") auto
  have m8: "(8, ?s) \<in> set (labeled_code ?N)" and m11: "(11, ?a) \<in> set (labeled_code ?N)"
    by (simp_all add: gen_kill_example_numbering_def)
  have c: "chain_op ''store_int''" by (simp add: chain_op_def startswith_def)
  have b: "is_binop ''add_int''" by (simp add: is_binop_def binary_ops_def startswith_def)
  have k8: "\<exists>kill. instruction_gen_kill (defs ?N) ?s 8 = Some ([8], kill) \<and> set kill = {6}"
    using gen_kill_of_numbered[OF n m8] c
    by (auto simp: name_arg_def arg_def gen_kill_example_numbering_def)
  have k11: "\<exists>kill. instruction_gen_kill (defs ?N) ?a 11 = Some ([11], kill) \<and> set kill = {}"
    using gen_kill_of_numbered[OF n m11] b
    by (auto simp: name_arg_def arg_def gen_kill_example_numbering_def)
  from k8 k11 show ?thesis by blast
qed

text \<open>
  C2. The reaching-definitions sets of a defining instruction at index \<open>i\<close> are to be
  \<open>gen = {i}\<close> and \<open>kill = def-map[target] \ {i}\<close>, and \<open>elem\<close> is a defining opcode:
  \<open>number_instructions\<close> records an \<open>elem\<close> instruction in the definition list of its
  target \<open>inst[3]\<close>, as \<open>computeLV_use_def\<close> does among the defined names. In the code
  compiled from \<^verbatim>\<open>void f() { int a[3]; int x; x = 1; x = 2; print(a[x + 1]); }\<close> the
  instruction at index 12 is \<open>elem_int %a %5 %6\<close> and the definition list of \<open>%6\<close> is
  \<open>[12]\<close>, so the claim gives \<open>gen = {12}\<close>; \<open>instruction_gen_kill\<close> returns the empty
  gen list for it. The store at index 8 and the addition at index 11 of the same block
  do get \<open>[8]\<close> and \<open>[11]\<close>.
\<close>

theorem elem_gen_kill_missing:
  "map_option snd (number_instructions [] gen_kill_example) = Some gen_kill_example_numbering
   \<and> (12, (''elem_int'', [VStr ''%a'', VStr ''%5'', VStr ''%6'']))
         \<in> set (labeled_code gen_kill_example_numbering)
   \<and> map_of (defs gen_kill_example_numbering) ''%6'' = Some [12]
   \<and> instruction_gen_kill (defs gen_kill_example_numbering)
         (''elem_int'', [VStr ''%a'', VStr ''%5'', VStr ''%6'']) 12 = Some ([], [])
   \<and> instruction_gen_kill (defs gen_kill_example_numbering)
         (''store_int'', [VStr ''%2'', VStr ''%x'']) 8 = Some ([8], [6])
   \<and> instruction_gen_kill (defs gen_kill_example_numbering)
         (''add_int'', [VStr ''%3'', VStr ''%4'', VStr ''%5'']) 11 = Some ([11], [])"
  using gen_kill_example_numbered
  by (simp add: gen_kill_example_numbering_def instruction_gen_kill_def binary_ops_def
        startswith_def gen_kill_at_def name_arg_def arg_def)

section \<open>Constant propagation rewrites loads only\<close>

lemma cp_result_refl: "cp_result i i"
  by (simp add: cp_result_def)

lemma same_numbering_refl: "same_numbering lc lc"
  by (simp add: same_numbering_def list_all2_refl cp_result_refl)

lemma same_numbering_keys: "same_numbering lc lc' \<Longrightarrow> map fst lc' = map fst lc"
  unfolding same_numbering_def by (induction rule: list_all2_induct) auto

lemma same_numbering_length: "same_numbering lc lc' \<Longrightarrow> length lc' = length lc"
  unfolding same_numbering_def by (simp add: list_all2_lengthD)

text \<open>Rewriting the entry of a key whose original entry is a load allowed to become it.\<close>

lemma same_numbering_update:
  assumes "same_numbering lc0 lc" and "map_of lc0 idx = Some i" and "cp_result i new"
  shows "same_numbering lc0 (AList.update idx new lc)"
  using assms unfolding same_numbering_def
proof (induction arbitrary: rule: list_all2_induct)
  case Nil
  then show ?case by simp
next
  case (Cons a lc0 b lc)
  show ?case
  proof (cases "fst a = idx")
    case True
    then have "snd a = i" using Cons.prems(1) by (cases a) auto
    then show ?thesis using True Cons.hyps Cons.prems(2) by (cases b) auto
  next
    case False
    then have "map_of lc0 idx = Some i" using Cons.prems(1) by (cases a) auto
    then show ?thesis using False Cons by (cases b) auto
  qed
qed

lemma cp_rewrite_cases:
  assumes "cp_rewrite dm cd idx i bb lc = Some (bb', lc')"
  shows "(bb' = bb \<and> lc' = lc) \<or>
         (\<exists>new. cp_result i new \<and>
            bb' = bb\<lparr>numerated_code := AList.update idx new (numerated_code bb)\<rparr> \<and>
            lc' = AList.update idx new lc)"
  using assms
  by (auto simp: cp_rewrite_def cp_result_def Let_def split: if_splits option.splits)

lemma cp_block_frame:
  assumes "cp_block sl dm items bb lc cd = Some (bb', lc')"
      and "\<forall>(k, i) \<in> set items. map_of lc0 k = Some i \<and> map_of nc0 k = Some i"
      and "same_numbering lc0 lc" and "same_numbering nc0 (numerated_code bb)"
  shows "same_numbering lc0 lc' \<and> same_numbering nc0 (numerated_code bb') \<and>
         bb' = bb\<lparr>numerated_code := numerated_code bb'\<rparr>"
  using assms
proof (induction items arbitrary: bb lc cd)
  case Nil
  then show ?case by simp
next
  case (Cons item items)
  obtain idx i where item: "item = (idx, i)" by (cases item)
  from Cons.prems(1) item obtain bb1 lc1 g k where
    rw: "cp_rewrite dm cd idx i bb lc = Some (bb1, lc1)" and
    gk: "instruction_gen_kill dm i idx = Some (g, k)" and
    rest: "cp_block sl dm items bb1 lc1
             (if g \<noteq> [] \<or> k \<noteq> [] then sl (filter (\<lambda>x. x \<notin> set k) cd @ g) else cd) = Some (bb', lc')"
    by (auto split: option.splits)
  have m: "map_of lc0 idx = Some i" "map_of nc0 idx = Some i"
    using Cons.prems(2) item by auto
  have s1: "same_numbering lc0 lc1 \<and> same_numbering nc0 (numerated_code bb1) \<and>
            bb1 = bb\<lparr>numerated_code := numerated_code bb1\<rparr>"
    using cp_rewrite_cases[OF rw] Cons.prems(3,4) m
    by (auto intro: same_numbering_update)
  have "same_numbering lc0 lc' \<and> same_numbering nc0 (numerated_code bb') \<and>
        bb' = bb1\<lparr>numerated_code := numerated_code bb'\<rparr>"
    using Cons.IH[OF rest] Cons.prems(2) s1 by auto
  then show ?case using s1
    by (metis (no_types, lifting) block.surjective block.update_convs(9))
qed

lemma cp_blocks_frame:
  assumes "cp_blocks sl dm bs lc = Some (bs', lc')"
      and "numbered_by lc0 bs" and "same_numbering lc0 lc"
  shows "same_numbering lc0 lc' \<and>
         list_all2 (\<lambda>b b'. b' = b\<lparr>numerated_code := numerated_code b'\<rparr> \<and>
                           same_numbering (numerated_code b) (numerated_code b')) bs bs'"
  using assms
proof (induction bs arbitrary: lc bs')
  case Nil
  then show ?case by simp
next
  case (Cons bb bs)
  from Cons.prems(1) obtain bb1 lc1 bs1 where
    1: "cp_block sl dm (numerated_code bb) bb lc (in_RD bb) = Some (bb1, lc1)" and
    2: "cp_blocks sl dm bs lc1 = Some (bs1, lc')" and 3: "bs' = bb1 # bs1"
    by (auto split: option.splits)
  have d: "distinct (map fst (numerated_code bb))"
    and a: "\<forall>(k, i) \<in> set (numerated_code bb). map_of lc0 k = Some i"
    using Cons.prems(2) by (auto simp: numbered_by_def)
  have items: "\<forall>(k, i) \<in> set (numerated_code bb).
                 map_of lc0 k = Some i \<and> map_of (numerated_code bb) k = Some i"
    using a d by (auto simp: map_of_eq_Some_iff)
  have f: "same_numbering lc0 lc1 \<and> same_numbering (numerated_code bb) (numerated_code bb1) \<and>
           bb1 = bb\<lparr>numerated_code := numerated_code bb1\<rparr>"
    by (rule cp_block_frame[OF 1 items Cons.prems(3) same_numbering_refl])
  have nb: "numbered_by lc0 bs" using Cons.prems(2) by (simp add: numbered_by_def)
  show ?case using Cons.IH[OF 2 nb] f 3 by simp
qed

text \<open>
  C10. On blocks whose \<open>numerated_code\<close> agrees with \<open>labeled_code\<close>, as after
  \<open>number_instructions\<close>, a run of \<open>constant_propagation\<close> leaves \<open>labeled_code\<close> with the same
  indices at the same positions and so with the same number of entries; the entry of an
  instruction whose opcode does not start with \<open>load\<close> is unchanged; the entry of a load
  is unchanged or is \<open>(literal_<type>, value, inst[2])\<close>, a literal with the load's target.
  Each block is unchanged but for \<open>numerated_code\<close>, which changes in the same way.
\<close>

theorem constant_propagation_frame:
  assumes "numbered_by lc bs" and "constant_propagation sl dm bs lc = Some (bs', lc')"
  shows "map fst lc' = map fst lc \<and> length lc' = length lc
       \<and> (\<forall>n < length lc. cp_result (snd (lc ! n)) (snd (lc' ! n)))
       \<and> (\<forall>n < length lc. \<not> startswith (fst (snd (lc ! n))) ''load'' \<longrightarrow> lc' ! n = lc ! n)
       \<and> list_all2 (\<lambda>b b'. b' = b\<lparr>numerated_code := numerated_code b'\<rparr> \<and>
                            same_numbering (numerated_code b) (numerated_code b')) bs bs'"
proof -
  from assms(2) have cp: "cp_blocks sl dm bs lc = Some (bs', lc')"
    by (auto simp: constant_propagation_def split: if_splits)
  have f: "same_numbering lc lc'" and
       b: "list_all2 (\<lambda>b b'. b' = b\<lparr>numerated_code := numerated_code b'\<rparr> \<and>
                            same_numbering (numerated_code b) (numerated_code b')) bs bs'"
    using cp_blocks_frame[OF cp assms(1) same_numbering_refl] by auto
  have k: "map fst lc' = map fst lc" and l: "length lc' = length lc"
    using f by (auto dest: same_numbering_keys same_numbering_length)
  have r: "\<forall>n < length lc. fst (lc' ! n) = fst (lc ! n) \<and> cp_result (snd (lc ! n)) (snd (lc' ! n))"
    using f by (auto simp: same_numbering_def list_all2_conv_all_nth)
  have u: "\<forall>n < length lc. \<not> startswith (fst (snd (lc ! n))) ''load'' \<longrightarrow> lc' ! n = lc ! n"
    using r by (auto simp: cp_result_def prod_eq_iff)
  from k l r u b show ?thesis by blast
qed

lemma cp_example_numbered:
  "number_instructions [] cp_example_input
     = Some (cp_example, \<lparr>labeled_code = cp_example_lc, defs = cp_example_defs, index = 5\<rparr>)"
  by (simp add: number_instructions_def cp_example_input_def cp_example_def new_block_def
        cp_example_lc_def cp_example_defs_def defs_inst_def defs_chain_def defs_binops_def
        binary_ops_def startswith_def name_arg_def arg_def add_to_defs_def)

lemma cp_example_run:
  "constant_propagation remdups cp_example_defs cp_example cp_example_lc
     = Some (map (\<lambda>b. b\<lparr>numerated_code := cp_example_lc'\<rparr>) cp_example_input, cp_example_lc')"
  by (simp add: constant_propagation_def cp_example_def cp_example_input_def new_block_def
        cp_example_lc_def cp_example_lc'_def cp_example_defs_def cp_rewrite_def
        check_constant_propagation_def instruction_gen_kill_def gen_kill_at_def
        binary_ops_def startswith_def name_arg_def arg_def Let_def)

theorem constant_propagation_frame_witness:
  "numbered_by cp_example_lc cp_example
   \<and> constant_propagation remdups cp_example_defs cp_example cp_example_lc
       = Some (map (\<lambda>b. b\<lparr>numerated_code := cp_example_lc'\<rparr>) cp_example_input, cp_example_lc')
   \<and> map fst cp_example_lc' = map fst cp_example_lc
   \<and> cp_example_lc' ! 2 = (3, (''literal_int'', [VInt 5, VStr ''%2'']))
   \<and> cp_example_lc' ! 3 = cp_example_lc ! 3"
proof -
  have n: "numbered_by cp_example_lc cp_example"
    by (simp add: numbered_by_def cp_example_def cp_example_input_def cp_example_lc_def)
  have p: "\<not> startswith (fst (snd (cp_example_lc ! 3))) ''load''" and l: "3 < length cp_example_lc"
    by (simp_all add: cp_example_lc_def startswith_def)
  have "map fst cp_example_lc' = map fst cp_example_lc" and "cp_example_lc' ! 3 = cp_example_lc ! 3"
    using constant_propagation_frame[OF n cp_example_run] p l by blast+
  moreover have "cp_example_lc' ! 2 = (3, (''literal_int'', [VInt 5, VStr ''%2'']))"
    by (simp add: cp_example_lc'_def)
  ultimately show ?thesis using n cp_example_run by blast
qed

section \<open>The optimised code against the generated code\<close>

lemma update_fresh: "k \<notin> fst ` set al \<Longrightarrow> AList.update k v al = al @ [(k, v)]"
  by (induction al) auto

lemma enum_from_Nil: "enum_from n [] = []"
  by (simp add: enum_from_def)

lemma enum_from_Cons: "enum_from n (x # xs) = (n, x) # enum_from (Suc n) xs"
  by (simp add: enum_from_def upt_rec)

lemma enum_from_append: "enum_from n (xs @ ys) = enum_from n xs @ enum_from (n + length xs) ys"
  by (induction xs arbitrary: n) (auto simp: enum_from_Nil enum_from_Cons)

lemma enum_from_keys: "map fst (enum_from n xs) = [n ..< n + length xs]"
  by (simp add: enum_from_def)

lemma enum_from_vals: "map snd (enum_from n xs) = xs"
  by (simp add: enum_from_def)

lemma length_enum_from: "length (enum_from n xs) = length xs"
  by (simp add: enum_from_def)

lemma number_block_fresh:
  assumes "number_block is bb st = Some (bb', st')"
      and "\<forall>k \<in> fst ` set (numerated_code bb). k < index st"
      and "\<forall>k \<in> fst ` set (labeled_code st). k < index st"
  shows "numerated_code bb' = numerated_code bb @ enum_from (index st) is \<and>
         labeled_code st' = labeled_code st @ enum_from (index st) is \<and>
         index st' = index st + length is"
  using assms
proof (induction "is" arbitrary: bb st)
  case Nil
  then show ?case by (simp add: enum_from_Nil)
next
  case (Cons i "is")
  from Cons.prems(1) obtain d where
    d: "defs_inst i (index st) (defs st) = Some d" and
    r: "number_block is (bb\<lparr>numerated_code := AList.update (index st) i (numerated_code bb)\<rparr>)
          (st\<lparr>labeled_code := AList.update (index st) i (labeled_code st),
              defs := d, index := index st + 1\<rparr>) = Some (bb', st')"
    by (auto split: option.splits)
  have u1: "AList.update (index st) i (numerated_code bb) = numerated_code bb @ [(index st, i)]"
    using Cons.prems(2) by (intro update_fresh) auto
  have u2: "AList.update (index st) i (labeled_code st) = labeled_code st @ [(index st, i)]"
    using Cons.prems(3) by (intro update_fresh) auto
  have "numerated_code bb' = (numerated_code bb @ [(index st, i)]) @ enum_from (index st + 1) is \<and>
        labeled_code st' = (labeled_code st @ [(index st, i)]) @ enum_from (index st + 1) is \<and>
        index st' = index st + 1 + length is"
    using Cons.IH[OF r] Cons.prems(2,3) u1 u2 by (auto simp: less_Suc_eq)
  then show ?case by (auto simp: enum_from_Cons)
qed

lemma number_blocks_fresh:
  assumes "number_blocks bs st = Some (bs', st')"
      and "\<forall>bb \<in> set bs. numerated_code bb = []"
      and "\<forall>k \<in> fst ` set (labeled_code st). k < index st"
  shows "concat (map numerated_code bs') = enum_from (index st) (EmitBlocks bs) \<and>
         labeled_code st' = labeled_code st @ enum_from (index st) (EmitBlocks bs) \<and>
         index st' = index st + length (EmitBlocks bs)"
  using assms
proof (induction bs arbitrary: st bs')
  case Nil
  then show ?case by (simp add: EmitBlocks_def enum_from_Nil)
next
  case (Cons bb bs)
  from Cons.prems(1) obtain bb1 st1 bs1 where
    1: "number_block (instructions bb) bb st = Some (bb1, st1)" and
    2: "number_blocks bs st1 = Some (bs1, st')" and 3: "bs' = bb1 # bs1"
    by (auto split: option.splits)
  have e: "numerated_code bb = []" using Cons.prems(2) by simp
  have b: "numerated_code bb1 = enum_from (index st) (instructions bb) \<and>
           labeled_code st1 = labeled_code st @ enum_from (index st) (instructions bb) \<and>
           index st1 = index st + length (instructions bb)"
    using number_block_fresh[OF 1] e Cons.prems(3) by simp
  have k1: "\<forall>k \<in> fst ` set (labeled_code st1). k < index st1"
  proof
    fix k assume "k \<in> fst ` set (labeled_code st1)"
    then have "k \<in> fst ` set (labeled_code st) \<or> k \<in> set (map fst (enum_from (index st) (instructions bb)))"
      using b by auto
    then show "k < index st1" using Cons.prems(3) b by (auto simp: enum_from_keys)
  qed
  have r: "concat (map numerated_code bs1) = enum_from (index st1) (EmitBlocks bs) \<and>
           labeled_code st' = labeled_code st1 @ enum_from (index st1) (EmitBlocks bs) \<and>
           index st' = index st1 + length (EmitBlocks bs)"
    using Cons.IH[OF 2 _ k1] Cons.prems(2) by simp
  have E: "EmitBlocks (bb # bs) = instructions bb @ EmitBlocks bs"
    by (simp add: EmitBlocks_def)
  show ?case using b r 3 by (auto simp: E enum_from_append)
qed

lemma number_instructions_fresh:
  assumes "number_instructions d0 bs = Some (bs', st)"
      and "\<forall>bb \<in> set bs. numerated_code bb = []"
  shows "labeled_code st = enum_from 1 (EmitBlocks bs)"
    and "concat (map numerated_code bs') = enum_from 1 (EmitBlocks bs)"
  using number_blocks_fresh[OF assms(1)[unfolded number_instructions_def] assms(2)] by simp_all

lemma update_block_gen_kill_code [simp]:
  "numerated_code (update_block_gen_kill_RD bb g k) = numerated_code bb"
  by (simp add: update_block_gen_kill_RD_def Let_def)

lemma gen_kill_block_code:
  "gen_kill_block dm items bb = Some bb' \<Longrightarrow> numerated_code bb' = numerated_code bb"
proof (induction items arbitrary: bb)
  case Nil
  then show ?case by simp
next
  case (Cons a items)
  obtain idx i where a: "a = (idx, i)" by (cases a)
  from Cons.prems a obtain g k where
    "gen_kill_block dm items (update_block_gen_kill_RD bb g k) = Some bb'"
    by (auto split: option.splits)
  from Cons.IH[OF this] show ?case by simp
qed

lemma computeRD_gen_kill_code:
  "computeRD_gen_kill dm bs = Some bs' \<Longrightarrow> map numerated_code bs' = map numerated_code bs"
proof (induction bs arbitrary: bs')
  case Nil
  then show ?case by simp
next
  case (Cons bb bs)
  then show ?case by (auto split: option.splits dest: gen_kill_block_code)
qed

lemma update_block_code:
  "(\<And>b. numerated_code (f b) = numerated_code b) \<Longrightarrow>
   map numerated_code (update_block r f store) = map numerated_code store"
  by (induction store) (auto simp: update_block_def)

lemma computeRD_loop_code:
  "computeRD_loop sl fuel wl store = Some store' \<Longrightarrow>
   map numerated_code store' = map numerated_code store"
proof (induction sl fuel wl store rule: computeRD_loop.induct)
  case (1 sl fuel store)
  then show ?case by simp
next
  case (2 sl w ws store)
  then show ?case by simp
next
  case (3 sl fuel ws store)
  then show ?case by simp
next
  case (4 sl fuel r ws store)
  from "4.prems" obtain b inn where
    b: "find_block store r = Some b" and
    i: "union_preds sl store (predecessors b) (in_RD b) = Some inn"
    by (auto split: option.splits)
  let ?out = "sl (filter (\<lambda>i. i \<notin> set (kill_defs b)) inn @ gen_defs b)"
  let ?store' = "update_block r (\<lambda>x. x\<lparr>in_RD := inn, out_RD := ?out\<rparr>) store"
  have run: "computeRD_loop sl fuel
               (if same_sorted (out_RD b) ?out then ws else ws @ rd_successors store b) ?store'
             = Some store'"
    using "4.prems" b i by (simp add: Let_def)
  have "map numerated_code store' = map numerated_code ?store'"
    using "4.IH"[OF b i refl refl refl run] .
  then show ?case by (simp add: update_block_code)
qed

lemma computeRD_in_out_code:
  assumes "computeRD_in_out sl fuel out bs = Some store"
  shows "map numerated_code (drop (length out) store) = map numerated_code bs"
    and "length (take (length out) store) = length out"
proof -
  have m: "map numerated_code store = map numerated_code (out @ bs)"
    using assms computeRD_loop_code by (auto simp: computeRD_in_out_def)
  then have l: "length store = length out + length bs"
    by (metis length_append length_map)
  have "map numerated_code (drop (length out) store) = drop (length out) (map numerated_code store)"
    by (simp add: drop_map)
  also have "\<dots> = drop (length out) (map numerated_code (out @ bs))" by (simp only: m)
  also have "\<dots> = map numerated_code bs" by simp
  finally show "map numerated_code (drop (length out) store) = map numerated_code bs" .
  show "length (take (length out) store) = length out" using l by simp
qed

lemma computeLV_use_def_code:
  "computeLV_use_def bs = Some bs' \<Longrightarrow> map numerated_code bs' = map numerated_code bs"
proof (induction bs arbitrary: bs')
  case Nil
  then show ?case by simp
next
  case (Cons bb bs)
  then show ?case by (auto split: option.splits)
qed

lemma computeLV_loop_code:
  "computeLV_loop sn gv fuel wl store = Some store' \<Longrightarrow>
   map numerated_code store' = map numerated_code store"
proof (induction sn gv fuel wl store rule: computeLV_loop.induct)
  case (1 sn gv fuel store)
  then show ?case by simp
next
  case (2 sn gv w ws store)
  then show ?case by simp
next
  case (3 sn gv fuel w ws store)
  let ?r = "last (w # ws)"
  from "3.prems" obtain b where b: "find_block store ?r = Some b"
    by (auto simp: Let_def simp del: last.simps butlast.simps split: option.splits)
  let ?inn = "sn (filter (\<lambda>i. i \<notin> set (defined b)) (out_set b) @ used b)"
  let ?store1 = "update_block ?r (\<lambda>x. x\<lparr>in_set := ?inn\<rparr>) store"
  from "3.prems" b obtain out where o: "lv_out sn gv ?store1 b = Some out"
    by (auto simp: Let_def simp del: last.simps butlast.simps split: option.splits)
  let ?store2 = "update_block ?r (\<lambda>x. x\<lparr>out_set := out\<rparr>) ?store1"
  have run: "computeLV_loop sn gv fuel
               (if same_sorted (out_set b) out \<and> same_sorted (in_set b) ?inn then butlast (w # ws)
                else butlast (w # ws) @ predecessors b) ?store2 = Some store'"
    using "3.prems" b o by (simp add: Let_def del: last.simps butlast.simps)
  have "map numerated_code store' = map numerated_code ?store2"
    using "3.IH"[OF refl refl b refl refl refl refl o run] .
  then show ?case by (simp add: update_block_code)
qed

lemma computeLV_in_out_code:
  assumes "computeLV_in_out sn gv fuel out bs = Some store"
  shows "map numerated_code (drop (length out) store) = map numerated_code bs"
proof -
  have m: "map numerated_code store = map numerated_code (out @ bs)"
    using assms computeLV_loop_code by (auto simp: computeLV_in_out_def)
  have "map numerated_code (drop (length out) store) = drop (length out) (map numerated_code store)"
    by (simp add: drop_map)
  also have "\<dots> = drop (length out) (map numerated_code (out @ bs))" by (simp only: m)
  also have "\<dots> = map numerated_code bs" by simp
  finally show ?thesis .
qed

lemma dead_at_subset: "dead_at bb i k key d = Some d' \<Longrightarrow> set d' \<subseteq> insert key (set d)"
  by (auto simp: dead_at_def split: option.splits if_splits)

lemma fold_dead_subset:
  "fold (\<lambda>b r. case r of None \<Rightarrow> None
                | Some d \<Rightarrow> if P b then dead_at bb i k key d else Some d) bs (Some d) = Some d'
   \<Longrightarrow> set d' \<subseteq> insert key (set d)"
proof (induction bs arbitrary: d)
  case Nil
  then show ?case by auto
next
  case (Cons b bs)
  show ?case
  proof (cases "P b")
    case True
    show ?thesis
    proof (cases "dead_at bb i k key d")
      case None
      then have "fold (\<lambda>b r. case r of None \<Rightarrow> None
                | Some d \<Rightarrow> if P b then dead_at bb i k key d else Some d) bs None = Some d'"
        using Cons.prems True by simp
      moreover have "\<And>xs. fold (\<lambda>b r. case r of None \<Rightarrow> None
                | Some d \<Rightarrow> if P b then dead_at bb i k key d else Some d) xs None = None"
      proof -
        fix xs show "fold (\<lambda>b r. case r of None \<Rightarrow> None
                | Some d \<Rightarrow> if P b then dead_at bb i k key d else Some d) xs None = None"
          by (induction xs) auto
      qed
      ultimately show ?thesis by simp
    next
      case (Some d1)
      then have "set d' \<subseteq> insert key (set d1)" using Cons.IH[of d1] Cons.prems True by simp
      then show ?thesis using dead_at_subset[OF Some] by auto
    qed
  next
    case False
    then show ?thesis using Cons.IH[of d] Cons.prems by simp
  qed
qed

lemma dce_inst_subset:
  assumes "dce_inst bb key i d = Some d'"
  shows "set d' \<subseteq> set d \<union> (if removable (fst i) then {key} else {})"
proof (cases "removable (fst i)")
  case True
  from assms obtain d1 d2 where
    1: "(if startswith (fst i) ''store'' \<or> startswith (fst i) ''literal'' \<or> startswith (fst i) ''load''
         then dead_at bb i 2 key d else Some d) = Some d1" and
    2: "fold (\<lambda>b r. case r of None \<Rightarrow> None
                | Some d \<Rightarrow> if startswith (fst i) b then dead_at bb i 3 key d else Some d)
             binary_ops (Some d1) = Some d2" and
    3: "(if startswith (fst i) ''call'' then dead_at bb i 2 key d2 else Some d2) = Some d'"
    by (auto simp: dce_inst_def Let_def split: option.splits)
  have "set d1 \<subseteq> insert key (set d)" using 1 dead_at_subset by (auto split: if_splits)
  moreover have "set d2 \<subseteq> insert key (set d1)" using fold_dead_subset[OF 2] .
  moreover have "set d' \<subseteq> insert key (set d2)" using 3 dead_at_subset by (auto split: if_splits)
  ultimately show ?thesis using True by auto
next
  case False
  then have nb: "\<forall>b \<in> set binary_ops. \<not> startswith (fst i) b"
    by (auto simp: removable_def is_binop_def)
  have "dce_inst bb key i d = Some d"
    using False unfolding dce_inst_def Let_def
    by (simp add: fold_no_match[OF nb] removable_def)
  then show ?thesis using assms by simp
qed

lemma dce_block_marked:
  "dce_block bb items d = Some d' \<Longrightarrow> key \<in> set d' \<Longrightarrow>
   key \<in> set d \<or> (\<exists>i. (key, i) \<in> set items \<and> removable (fst i))"
proof (induction items arbitrary: d)
  case Nil
  then show ?case by simp
next
  case (Cons a items)
  obtain k i where a: "a = (k, i)" by (cases a)
  from Cons.prems(1) a obtain d1 where 1: "dce_inst bb k i d = Some d1"
    and 2: "dce_block bb items d1 = Some d'"
    by (auto split: option.splits)
  from Cons.IH[OF 2 Cons.prems(2)] show ?case
  proof
    assume "key \<in> set d1"
    then have "key \<in> set d \<or> (removable (fst i) \<and> key = k)"
      using dce_inst_subset[OF 1] by (cases "removable (fst i)") auto
    then show ?thesis
    proof
      assume "key \<in> set d" then show ?thesis by simp
    next
      assume "removable (fst i) \<and> key = k"
      then have "(key, i) \<in> set (a # items) \<and> removable (fst i)" using a by simp
      then show ?thesis by blast
    qed
  next
    assume "\<exists>i. (key, i) \<in> set items \<and> removable (fst i)"
    then obtain j where j: "(key, j) \<in> set items" "removable (fst j)" by blast
    then have "(key, j) \<in> set (a # items)" by simp
    then show ?thesis using j by blast
  qed
qed

lemma dce_blocks_marked:
  "dce_blocks bs d = Some d' \<Longrightarrow> key \<in> set d' \<Longrightarrow>
   key \<in> set d \<or> (\<exists>i. (key, i) \<in> set (concat (map numerated_code bs)) \<and> removable (fst i))"
proof (induction bs arbitrary: d)
  case Nil
  then show ?case by simp
next
  case (Cons bb bs)
  from Cons.prems(1) obtain d1 where 1: "dce_block bb (numerated_code bb) d = Some d1"
    and 2: "dce_blocks bs d1 = Some d'"
    by (auto split: option.splits)
  from Cons.IH[OF 2 Cons.prems(2)] show ?case
  proof
    assume "key \<in> set d1"
    from dce_block_marked[OF 1 this] show ?thesis
    proof
      assume "key \<in> set d" then show ?thesis by simp
    next
      assume "\<exists>i. (key, i) \<in> set (numerated_code bb) \<and> removable (fst i)"
      then obtain j where j: "(key, j) \<in> set (numerated_code bb)" "removable (fst j)" by blast
      then have "(key, j) \<in> set (concat (map numerated_code (bb # bs)))" by simp
      then show ?thesis using j by blast
    qed
  next
    assume "\<exists>i. (key, i) \<in> set (concat (map numerated_code bs)) \<and> removable (fst i)"
    then obtain j where j: "(key, j) \<in> set (concat (map numerated_code bs))" "removable (fst j)"
      by blast
    then have "(key, j) \<in> set (concat (map numerated_code (bb # bs)))" by simp
    then show ?thesis using j by blast
  qed
qed

lemma deadcode_elimination_marked:
  "deadcode_elimination bs = Some dead \<Longrightarrow> key \<in> set dead \<Longrightarrow>
   \<exists>i. (key, i) \<in> set (concat (map numerated_code bs)) \<and> removable (fst i)"
  using dce_blocks_marked[of bs "[]" dead key] by (simp add: deadcode_elimination_def)

lemma side_effecting_kept:
  assumes "side_effecting opc"
  shows "\<not> removable opc" and "\<not> startswith opc ''load''"
proof -
  let ?S = "[''print'', ''cbranch'', ''jump'', ''return'', ''param'', ''elem'', ''sitofp'', ''fptosi'']"
  let ?L = "[''store'', ''literal'', ''load'', ''call''] @ binary_ops"
  have e: "\<exists>p \<in> set ?S. startswith opc p" using assms unfolding side_effecting_def .
  have d: "\<forall>p \<in> set ?S. \<forall>q \<in> set ?L. \<not> startswith p q \<and> \<not> startswith q p"
    by (simp add: binary_ops_def startswith_def)
  have nr: "\<not> (\<exists>q \<in> set ?L. startswith opc q)"
    using disjoint_prefixes[OF d e] by (rule notI)
  have "removable opc \<Longrightarrow> \<exists>q \<in> set ?L. startswith opc q"
    unfolding removable_def is_binop_def by auto
  then show "\<not> removable opc" using nr by blast
  have "startswith opc ''load'' \<Longrightarrow> removable opc" by (simp add: removable_def)
  then show "\<not> startswith opc ''load''" using \<open>\<not> removable opc\<close> by blast
qed

lemma same_numbering_concat:
  "list_all2 (\<lambda>b b'. Q b b' \<and> same_numbering (numerated_code b) (numerated_code b')) bs bs' \<Longrightarrow>
   same_numbering (concat (map numerated_code bs)) (concat (map numerated_code bs'))"
  unfolding same_numbering_def
  by (induction rule: list_all2_induct) (auto intro: list_all2_appendI)

lemma numbered_by_alt:
  "numbered_by lc bs \<longleftrightarrow>
     (\<forall>nc \<in> set (map numerated_code bs).
        distinct (map fst nc) \<and> (\<forall>(k, i) \<in> set nc. map_of lc k = Some i))"
  by (auto simp: numbered_by_def)

lemma numbered_by_cong:
  "map numerated_code bs = map numerated_code bs' \<Longrightarrow> numbered_by lc bs = numbered_by lc bs'"
  by (simp only: numbered_by_alt)

lemma distinct_enum_keys: "distinct (map fst (enum_from n xs))"
  by (simp add: enum_from_keys)

lemma numbered_by_concat:
  assumes "concat (map numerated_code bs) = lc" and "distinct (map fst lc)"
  shows "numbered_by lc bs"
  unfolding numbered_by_def
proof
  fix bb assume bb: "bb \<in> set bs"
  then obtain xs ys where s: "bs = xs @ bb # ys" by (meson split_list)
  have lc: "lc = concat (map numerated_code xs) @ numerated_code bb @ concat (map numerated_code ys)"
    using assms(1) s by simp
  have d: "distinct (map fst (numerated_code bb))"
    using assms(2) unfolding lc by simp
  have a: "\<forall>(k, i) \<in> set (numerated_code bb). map_of lc k = Some i"
  proof (intro ballI, clarify)
    fix k i assume "(k, i) \<in> set (numerated_code bb)"
    then have "(k, i) \<in> set lc" unfolding lc by simp
    then show "map_of lc k = Some i" using assms(2) by (simp add: map_of_eq_Some_iff)
  qed
  from d a show "distinct (map fst (numerated_code bb)) \<and>
                 (\<forall>(k, i) \<in> set (numerated_code bb). map_of lc k = Some i)" ..
qed

text \<open>What one run of the loop body of \<open>visit_Program\<close> appends.\<close>

lemma visit_FuncDef_result:
  assumes run: "visit_FuncDef sl sn fuel gv fd code = Some code'"
      and fresh: "\<forall>bb \<in> set (cfg fd). numerated_code bb = []"
  shows "\<exists>lc N dead.
           code' = appendOptimizedCode lc dead code \<and>
           same_numbering (enum_from 1 (EmitBlocks (cfg fd))) lc \<and>
           same_numbering (enum_from 1 (EmitBlocks (cfg fd))) N \<and>
           (\<forall>key \<in> set dead. \<exists>i. (key, i) \<in> set N \<and> removable (fst i))"
proof -
  let ?n = "length (outside fd)"
  let ?E = "enum_from 1 (EmitBlocks (cfg fd))"
  from run obtain cfg1 st cfg2 store3 cfg4 lc cfg5 store6 dead where
    1: "number_instructions [] (cfg fd) = Some (cfg1, st)" and
    2: "computeRD_gen_kill (defs st) cfg1 = Some cfg2" and
    3: "computeRD_in_out sl fuel (outside fd) cfg2 = Some store3" and
    4: "constant_propagation sl (defs st) (drop ?n store3) (labeled_code st) = Some (cfg4, lc)" and
    5: "computeLV_use_def cfg4 = Some cfg5" and
    6: "computeLV_in_out sn gv fuel (take ?n store3) cfg5 = Some store6" and
    7: "deadcode_elimination (drop ?n store6) = Some dead" and
    8: "code' = appendOptimizedCode lc dead code"
    unfolding visit_FuncDef_def by (auto split: option.splits)
  have l0: "labeled_code st = ?E" and c1: "concat (map numerated_code cfg1) = ?E"
    using number_instructions_fresh[OF 1 fresh] by simp_all
  have m3: "map numerated_code (drop ?n store3) = map numerated_code cfg1"
    using computeRD_in_out_code(1)[OF 3] computeRD_gen_kill_code[OF 2] by simp
  have t3: "length (take ?n store3) = ?n" using computeRD_in_out_code(2)[OF 3] .
  have nb1: "numbered_by ?E cfg1" using numbered_by_concat[OF c1 distinct_enum_keys] .
  have nb3: "numbered_by (labeled_code st) (drop ?n store3)"
    using nb1 numbered_by_cong[OF m3] l0 by simp
  from 4 have cp: "cp_blocks sl (defs st) (drop ?n store3) (labeled_code st) = Some (cfg4, lc)"
    by (auto simp: constant_propagation_def split: if_splits)
  have f: "same_numbering (labeled_code st) lc" and
       b: "list_all2 (\<lambda>b b'. b' = b\<lparr>numerated_code := numerated_code b'\<rparr> \<and>
                            same_numbering (numerated_code b) (numerated_code b')) (drop ?n store3) cfg4"
    using cp_blocks_frame[OF cp nb3 same_numbering_refl] by auto
  have "same_numbering (concat (map numerated_code (drop ?n store3))) (concat (map numerated_code cfg4))"
    using same_numbering_concat[OF b] .
  then have s4: "same_numbering ?E (concat (map numerated_code cfg4))"
    using m3 c1 by simp
  have m6: "map numerated_code (drop ?n store6) = map numerated_code cfg4"
    using computeLV_in_out_code[OF 6] computeLV_use_def_code[OF 5] t3 by simp
  have d: "\<forall>key \<in> set dead. \<exists>i. (key, i) \<in> set (concat (map numerated_code cfg4)) \<and> removable (fst i)"
    using deadcode_elimination_marked[OF 7] m6 by simp
  have f': "same_numbering ?E lc" using f l0 by simp
  show ?thesis
    by (intro exI[of _ lc] exI[of _ "concat (map numerated_code cfg4)"] exI[of _ dead] conjI)
       (rule 8, rule f', rule s4, rule d)
qed

lemma length_appendOptimizedCode:
  "length (appendOptimizedCode lc dead code) \<le> length code + length lc"
  unfolding appendOptimizedCode_def
  by (simp add: le_trans[OF length_filter_le])

lemma visit_FuncDef_length:
  assumes "visit_FuncDef sl sn fuel gv fd code = Some code'"
      and "\<forall>bb \<in> set (cfg fd). numerated_code bb = []"
  shows "length code' \<le> length code + length (EmitBlocks (cfg fd))"
proof -
  obtain lc N dead where
    c: "code' = appendOptimizedCode lc dead code" and
    s: "same_numbering (enum_from 1 (EmitBlocks (cfg fd))) lc"
    using visit_FuncDef_result[OF assms] by blast
  have "length lc = length (EmitBlocks (cfg fd))"
    using same_numbering_length[OF s] by (simp add: length_enum_from)
  then show ?thesis using length_appendOptimizedCode[of lc dead code] c by simp
qed

lemma visit_FuncDefs_length:
  assumes "visit_FuncDefs sl sn fuel gv fds code = Some code'"
      and "\<forall>fd \<in> set fds. \<forall>bb \<in> set (cfg fd). numerated_code bb = []"
  shows "length code' \<le> length code + length (concat (map (\<lambda>fd. EmitBlocks (cfg fd)) fds))"
  using assms
proof (induction fds arbitrary: code)
  case Nil
  then show ?case by simp
next
  case (Cons fd fds)
  from Cons.prems(1) obtain code1 where
    1: "visit_FuncDef sl sn fuel gv fd code = Some code1" and
    2: "visit_FuncDefs sl sn fuel gv fds code1 = Some code'"
    by (auto split: option.splits)
  have "length code1 \<le> length code + length (EmitBlocks (cfg fd))"
    using visit_FuncDef_length[OF 1] Cons.prems(2) by simp
  moreover have "length code' \<le> length code1 + length (concat (map (\<lambda>fd. EmitBlocks (cfg fd)) fds))"
    using Cons.IH[OF 2] Cons.prems(2) by simp
  ultimately show ?case by simp
qed

text \<open>
  C8. For the global instructions and the function definitions the generator hands over
  (blocks not yet numbered), whenever \<open>DataFlow.visit_Program\<close> returns, its instruction list
  is at most as long as the generator's list \<open>self.code\<close> over the same program.
\<close>

theorem optimised_not_longer:
  assumes "\<forall>fd \<in> set fds. \<forall>bb \<in> set (cfg fd). numerated_code bb = []"
      and "visit_Program sl sn fuel text fds = Some code"
  shows "length code \<le> length (generated_code text fds)"
proof -
  from assms(2) obtain gv where "visit_FuncDefs sl sn fuel gv fds text = Some code"
    by (auto simp: visit_Program_def split: option.splits)
  from visit_FuncDefs_length[OF this assms(1)] show ?thesis
    by (simp add: generated_code_def)
qed

lemma small_example_fresh:
  "\<forall>fd \<in> set [small_example]. \<forall>bb \<in> set (cfg fd). numerated_code bb = []"
  by (simp add: small_example_def new_block_def)

lemma small_example_run:
  "visit_Program remdups remdups 10 [] [small_example] = Some (EmitBlocks (cfg small_example))"
  by code_simp

theorem optimised_not_longer_witness:
  "map numerated_code (cfg small_example) = [[], []]
   \<and> visit_Program remdups remdups 10 [] [small_example] = Some (EmitBlocks (cfg small_example))
   \<and> length (EmitBlocks (cfg small_example)) \<le> length (generated_code [] [small_example])"
proof -
  have "map numerated_code (cfg small_example) = [[], []]"
    by (simp add: small_example_def new_block_def)
  then show ?thesis
    using optimised_not_longer[OF small_example_fresh small_example_run] small_example_run
    by blast
qed

lemma enum_from_nth: "p < length xs \<Longrightarrow> enum_from n xs ! p = (n + p, xs ! p)"
  by (simp add: enum_from_def)

lemma same_numbering_nth:
  "same_numbering lc lc' \<Longrightarrow> p < length lc \<Longrightarrow>
   fst (lc' ! p) = fst (lc ! p) \<and> cp_result (snd (lc ! p)) (snd (lc' ! p))"
  by (auto simp: same_numbering_def list_all2_conv_all_nth)

lemma cp_result_side_effecting: "cp_result i i' \<Longrightarrow> side_effecting (fst i) \<Longrightarrow> i' = i"
  using side_effecting_kept(2) by (auto simp: cp_result_def)

lemma literal_not_side_effecting: "\<not> side_effecting (''literal_'' @ x)"
proof
  assume "side_effecting (''literal_'' @ x)"
  then have e: "\<exists>p \<in> set [''print'', ''cbranch'', ''jump'', ''return'', ''param'', ''elem'', ''sitofp'', ''fptosi''].
                 startswith (''literal_'' @ x) p"
    unfolding side_effecting_def .
  have l: "\<exists>q \<in> set [''literal_'']. startswith (''literal_'' @ x) q"
    by (simp add: startswith_def)
  have d: "\<forall>p \<in> set [''print'', ''cbranch'', ''jump'', ''return'', ''param'', ''elem'', ''sitofp'', ''fptosi''].
             \<forall>q \<in> set [''literal_'']. \<not> startswith p q \<and> \<not> startswith q p"
    by (simp add: startswith_def)
  from disjoint_prefixes[OF d e l] show False .
qed

lemma cp_result_same_effect:
  assumes "cp_result i i'"
  shows "side_effecting (fst i') \<longleftrightarrow> side_effecting (fst i)"
proof (cases "i' = i")
  case True
  then show ?thesis by simp
next
  case False
  then have l: "startswith (fst i) ''load''" and "\<exists>v t. i' = (''literal_'' @ type_name v, [v, t])"
    using assms by (auto simp: cp_result_def)
  then obtain v t where "i' = (''literal_'' @ type_name v, [v, t])" by blast
  then have "\<not> side_effecting (fst i')" using literal_not_side_effecting by simp
  moreover have "\<not> side_effecting (fst i)" using l side_effecting_kept(2) by blast
  ultimately show ?thesis by simp
qed

text \<open>The side-effecting instructions among the survivors are those of the numbered list.\<close>

lemma filter_survivors:
  assumes "list_all2 (\<lambda>a b. fst b = fst a \<and> cp_result (snd a) (snd b)) E lc"
      and "\<forall>a \<in> set E. side_effecting (fst (snd a)) \<longrightarrow> fst a \<notin> set dead"
  shows "filter (\<lambda>i. side_effecting (fst i)) (map snd (filter (\<lambda>(key, i). key \<notin> set dead) lc))
         = filter (\<lambda>i. side_effecting (fst i)) (map snd E)"
  using assms
proof (induction rule: list_all2_induct)
  case Nil
  then show ?case by simp
next
  case (Cons a E b lc)
  have k: "fst b = fst a" and c: "cp_result (snd a) (snd b)" using Cons.hyps(1) by simp_all
  have rest: "filter (\<lambda>i. side_effecting (fst i)) (map snd (filter (\<lambda>(key, i). key \<notin> set dead) lc))
         = filter (\<lambda>i. side_effecting (fst i)) (map snd E)"
    using Cons.IH Cons.prems by simp
  show ?case
  proof (cases "side_effecting (fst (snd a))")
    case True
    then have "snd b = snd a" using cp_result_side_effecting[OF c] by simp
    moreover have "fst b \<notin> set dead" using True Cons.prems k by simp
    ultimately show ?thesis using True rest by (simp add: case_prod_unfold)
  next
    case False
    then have "\<not> side_effecting (fst (snd b))" using cp_result_same_effect[OF c] by simp
    then show ?thesis using False rest by (simp add: case_prod_unfold)
  qed
qed

lemma marked_not_side_effecting:
  assumes sN: "same_numbering E N" and dist: "distinct (map fst E)"
      and d: "\<forall>key \<in> set dead. \<exists>j. (key, j) \<in> set N \<and> removable (fst j)"
      and a: "a \<in> set E" and se: "side_effecting (fst (snd a))"
  shows "fst a \<notin> set dead"
proof
  assume "fst a \<in> set dead"
  then obtain j where j: "(fst a, j) \<in> set N" "removable (fst j)" using d by blast
  then obtain q where q: "q < length N" "N ! q = (fst a, j)" by (auto simp: in_set_conv_nth)
  have qE: "q < length E" using same_numbering_length[OF sN] q(1) by simp
  have f: "fst (E ! q) = fst a" and cr: "cp_result (snd (E ! q)) j"
    using same_numbering_nth[OF sN qE] q(2) by simp_all
  have "E ! q \<in> set E" using qE by simp
  then have "E ! q = a" using f a dist by (metis eq_key_imp_eq_value prod.collapse)
  then have "j = snd a" using cr cp_result_side_effecting se by blast
  then show False using j(2) side_effecting_kept(1)[OF se] by simp
qed

lemma visit_FuncDef_side_effects:
  assumes run: "visit_FuncDef sl sn fuel gv fd code = Some code'"
      and fresh: "\<forall>bb \<in> set (cfg fd). numerated_code bb = []"
  shows "filter (\<lambda>i. side_effecting (fst i)) code'
         = filter (\<lambda>i. side_effecting (fst i)) code
           @ filter (\<lambda>i. side_effecting (fst i)) (EmitBlocks (cfg fd))"
proof -
  let ?E = "enum_from 1 (EmitBlocks (cfg fd))"
  obtain lc N dead where
    c: "code' = appendOptimizedCode lc dead code" and
    s: "same_numbering ?E lc" and
    sN: "same_numbering ?E N" and
    d: "\<forall>key \<in> set dead. \<exists>j. (key, j) \<in> set N \<and> removable (fst j)"
    using visit_FuncDef_result[OF run fresh] by blast
  have nd: "\<forall>a \<in> set ?E. side_effecting (fst (snd a)) \<longrightarrow> fst a \<notin> set dead"
    using marked_not_side_effecting[OF sN distinct_enum_keys d] by blast
  have "filter (\<lambda>i. side_effecting (fst i)) (map snd (filter (\<lambda>(key, i). key \<notin> set dead) lc))
        = filter (\<lambda>i. side_effecting (fst i)) (map snd ?E)"
    using filter_survivors[OF s[unfolded same_numbering_def] nd] .
  then show ?thesis using c by (simp add: appendOptimizedCode_def enum_from_vals)
qed

lemma visit_FuncDefs_side_effects:
  assumes "visit_FuncDefs sl sn fuel gv fds code = Some code'"
      and "\<forall>fd \<in> set fds. \<forall>bb \<in> set (cfg fd). numerated_code bb = []"
  shows "filter (\<lambda>i. side_effecting (fst i)) code'
         = filter (\<lambda>i. side_effecting (fst i)) code
           @ filter (\<lambda>i. side_effecting (fst i)) (concat (map (\<lambda>fd. EmitBlocks (cfg fd)) fds))"
  using assms
proof (induction fds arbitrary: code)
  case Nil
  then show ?case by simp
next
  case (Cons fd fds)
  from Cons.prems(1) obtain code1 where
    1: "visit_FuncDef sl sn fuel gv fd code = Some code1" and
    2: "visit_FuncDefs sl sn fuel gv fds code1 = Some code'"
    by (auto split: option.splits)
  have f: "\<forall>bb \<in> set (cfg fd). numerated_code bb = []" using Cons.prems(2) by simp
  have r: "\<forall>fd \<in> set fds. \<forall>bb \<in> set (cfg fd). numerated_code bb = []" using Cons.prems(2) by simp
  show ?case
    using visit_FuncDef_side_effects[OF 1 f] Cons.IH[OF 2 r] by simp
qed

lemma dce_keeps_side_effects:
  assumes "deadcode_elimination bs = Some dead"
      and "distinct (map fst (concat (map numerated_code bs)))"
      and "a \<in> set (concat (map numerated_code bs))" and "side_effecting (fst (snd a))"
  shows "fst a \<notin> set dead"
proof -
  have d: "\<forall>key \<in> set dead. \<exists>j. (key, j) \<in> set (concat (map numerated_code bs)) \<and> removable (fst j)"
    using deadcode_elimination_marked[OF assms(1)] by blast
  show ?thesis
    by (rule marked_not_side_effecting[OF same_numbering_refl assms(2) d assms(3,4)])
qed

text \<open>
  C5. \<open>deadcode_elimination\<close> never puts into \<open>dead_code\<close> the index of an instruction whose
  opcode starts with \<open>print\<close>, \<open>cbranch\<close>, \<open>jump\<close>, \<open>return\<close>, \<open>param\<close>, \<open>elem\<close>, \<open>sitofp\<close> or
  \<open>fptosi\<close>, on any blocks whose numbered instructions have distinct indices. For the function
  definitions the generator hands over, whenever \<open>DataFlow.visit_Program\<close> returns, the
  side-effecting instructions of the emitted list are exactly those of the generated list,
  occurrence by occurrence and in the same order: none is dropped, moved or added.
\<close>

theorem side_effects_survive:
  "(deadcode_elimination bs = Some dead \<longrightarrow>
      distinct (map fst (concat (map numerated_code bs))) \<longrightarrow>
      (\<forall>a \<in> set (concat (map numerated_code bs)).
          side_effecting (fst (snd a)) \<longrightarrow> fst a \<notin> set dead))
   \<and> ((\<forall>fd \<in> set fds. \<forall>bb \<in> set (cfg fd). numerated_code bb = []) \<longrightarrow>
        visit_Program sl sn fuel text fds = Some code \<longrightarrow>
        filter (\<lambda>i. side_effecting (fst i)) code
          = filter (\<lambda>i. side_effecting (fst i)) (generated_code text fds))"
proof (intro conjI impI ballI)
  fix a
  assume "deadcode_elimination bs = Some dead"
     and "distinct (map fst (concat (map numerated_code bs)))"
     and "a \<in> set (concat (map numerated_code bs))" and "side_effecting (fst (snd a))"
  then show "fst a \<notin> set dead" by (rule dce_keeps_side_effects)
next
  assume fresh: "\<forall>fd \<in> set fds. \<forall>bb \<in> set (cfg fd). numerated_code bb = []"
     and run: "visit_Program sl sn fuel text fds = Some code"
  from run obtain gv where "visit_FuncDefs sl sn fuel gv fds text = Some code"
    by (auto simp: visit_Program_def split: option.splits)
  from visit_FuncDefs_side_effects[OF this fresh]
  show "filter (\<lambda>i. side_effecting (fst i)) code
          = filter (\<lambda>i. side_effecting (fst i)) (generated_code text fds)"
    by (simp add: generated_code_def)
qed

lemma dead_store_run:
  "visit_Program remdups remdups 10 [] [dead_store_example] = Some dead_store_optimised"
  by code_simp

lemma dead_store_dce: "deadcode_elimination [dead_store_block] = Some [5]"
  by code_simp

theorem side_effects_survive_witness:
  "deadcode_elimination [dead_store_block] = Some [5]
   \<and> map fst (concat (map numerated_code [dead_store_block])) = [1, 2, 3, 4, 5, 6, 7, 8]
   \<and> concat (map numerated_code [dead_store_block]) ! 6 = (7, (''print_int'', [VStr ''%2'']))
   \<and> side_effecting ''print_int''
   \<and> 7 \<notin> set [5::nat]
   \<and> map numerated_code (cfg dead_store_example) = [[], []]
   \<and> visit_Program remdups remdups 10 [] [dead_store_example] = Some dead_store_optimised
   \<and> filter (\<lambda>i. side_effecting (fst i)) dead_store_optimised
       = [(''print_int'', [VStr ''%2'']), (''jump'', [VStr ''%exit'']), (''return_void'', [])]
   \<and> filter (\<lambda>i. side_effecting (fst i)) (generated_code [] [dead_store_example])
       = [(''print_int'', [VStr ''%2'']), (''jump'', [VStr ''%exit'']), (''return_void'', [])]"
proof -
  note A = side_effects_survive[THEN conjunct1, rule_format]
  note B = side_effects_survive[THEN conjunct2, THEN mp, THEN mp]
  have k: "map fst (concat (map numerated_code [dead_store_block])) = [1, 2, 3, 4, 5, 6, 7, 8]"
    by (simp add: dead_store_block_def new_block_def)
  have d: "distinct (map fst (concat (map numerated_code [dead_store_block])))"
    unfolding k by simp
  have n: "concat (map numerated_code [dead_store_block]) ! 6 = (7, (''print_int'', [VStr ''%2'']))"
    by (simp add: dead_store_block_def new_block_def)
  have m: "(7, (''print_int'', [VStr ''%2''])) \<in> set (concat (map numerated_code [dead_store_block]))"
    by (simp add: dead_store_block_def new_block_def)
  have s: "side_effecting ''print_int''"
    by (simp add: side_effecting_def startswith_def)
  have nd: "7 \<notin> set [5::nat]"
    using A[OF dead_store_dce d m] s by simp
  have f: "map numerated_code (cfg dead_store_example) = [[], []]"
    by (simp add: dead_store_example_def new_block_def)
  have fresh: "\<forall>fd \<in> set [dead_store_example]. \<forall>bb \<in> set (cfg fd). numerated_code bb = []"
    by (simp add: dead_store_example_def new_block_def)
  have o: "filter (\<lambda>i. side_effecting (fst i)) dead_store_optimised
       = [(''print_int'', [VStr ''%2'']), (''jump'', [VStr ''%exit'']), (''return_void'', [])]"
    by (simp add: dead_store_optimised_def side_effecting_def startswith_def)
  have g: "filter (\<lambda>i. side_effecting (fst i)) (generated_code [] [dead_store_example])
       = [(''print_int'', [VStr ''%2'']), (''jump'', [VStr ''%exit'']), (''return_void'', [])]"
    using B[OF fresh dead_store_run] o by simp
  from dead_store_dce k n s nd f dead_store_run o g show ?thesis by (intro conjI)
qed

section \<open>Typing of binary operations and the check of print\<close>

lemma binary_rel_disjoint: "opr \<in> type_binary_ops t \<Longrightarrow> opr \<notin> type_rel_ops t"
  by (cases t) auto

lemma uc_type_of_Inr: "uc_type_of r = Inr t \<longleftrightarrow> r = Inr (Typed t)"
  by (auto simp: uc_type_of_def split: sum.splits annot.splits)

text \<open>
  C6. When both operands of a \<open>BinaryOp\<close> are accepted with types \<open>ltype\<close> and \<open>rtype\<close>, the
  node is rejected with error 6 if the two types render differently; otherwise its type is
  \<open>ltype\<close> if the operator is in \<open>ltype.binary_ops\<close>, \<open>bool\<close> if it is in \<open>ltype.rel_ops\<close>, and
  the node is rejected with error 7 if it is in neither. Conversely, an accepted \<open>BinaryOp\<close>
  has two typed operands that render equal and a type given by this rule.
\<close>

theorem binaryop_typing:
  "(visit st l = Inr (Typed ltype) \<longrightarrow> visit st r = Inr (Typed rtype) \<longrightarrow>
      visit st (BinaryOp opr l r) =
        (if uc_str ltype \<noteq> uc_str rtype then Inl (SemanticError 6)
         else if opr \<in> type_binary_ops ltype then Inr (Typed ltype)
         else if opr \<in> type_rel_ops ltype then Inr (Typed BoolType)
         else Inl (SemanticError 7)))
   \<and> (visit st (BinaryOp opr l r) = Inr a \<longrightarrow>
        (\<exists>lt rt. visit st l = Inr (Typed lt) \<and> visit st r = Inr (Typed rt) \<and>
                 uc_str lt = uc_str rt \<and>
                 (opr \<in> type_binary_ops lt \<or> opr \<in> type_rel_ops lt) \<and>
                 (opr \<in> type_binary_ops lt \<longrightarrow> a = Typed lt) \<and>
                 (opr \<in> type_rel_ops lt \<longrightarrow> a = Typed BoolType)))"
proof (intro conjI impI)
  assume "visit st l = Inr (Typed ltype)" and "visit st r = Inr (Typed rtype)"
  then show "visit st (BinaryOp opr l r) =
        (if uc_str ltype \<noteq> uc_str rtype then Inl (SemanticError 6)
         else if opr \<in> type_binary_ops ltype then Inr (Typed ltype)
         else if opr \<in> type_rel_ops ltype then Inr (Typed BoolType)
         else Inl (SemanticError 7))"
    by (simp add: visit_BinaryOp_def uc_type_of_def)
next
  assume acc: "visit st (BinaryOp opr l r) = Inr a"
  then obtain lt where lt: "uc_type_of (visit st l) = Inr lt"
    by (auto simp: visit_BinaryOp_def split: sum.splits)
  with acc obtain rt where rt: "uc_type_of (visit st r) = Inr rt"
    by (auto simp: visit_BinaryOp_def split: sum.splits)
  have r: "uc_str lt = uc_str rt \<and>
           (opr \<in> type_binary_ops lt \<or> opr \<in> type_rel_ops lt) \<and>
           (opr \<in> type_binary_ops lt \<longrightarrow> a = Typed lt) \<and>
           (opr \<in> type_rel_ops lt \<longrightarrow> a = Typed BoolType)"
    using acc lt rt binary_rel_disjoint[of opr lt]
    by (auto simp: visit_BinaryOp_def split: if_splits)
  show "\<exists>lt rt. visit st l = Inr (Typed lt) \<and> visit st r = Inr (Typed rt) \<and>
                 uc_str lt = uc_str rt \<and>
                 (opr \<in> type_binary_ops lt \<or> opr \<in> type_rel_ops lt) \<and>
                 (opr \<in> type_binary_ops lt \<longrightarrow> a = Typed lt) \<and>
                 (opr \<in> type_rel_ops lt \<longrightarrow> a = Typed BoolType)"
    using lt rt r unfolding uc_type_of_Inr by blast
qed

lemma example_x: "visit example_scope (ID ''x'') = Inr (Typed IntType)"
  by (simp add: visit_ID_def declared_def lookup_def example_scope_def)

lemma example_one: "visit example_scope (Constant ''int'' ''1'') = Inr (Typed IntType)"
  by (simp add: visit_Constant_def typemap_def)

theorem binaryop_typing_witness:
  "visit example_scope (ID ''x'') = Inr (Typed IntType)
   \<and> visit example_scope (Constant ''int'' ''1'') = Inr (Typed IntType)
   \<and> visit example_scope (BinaryOp ''+'' (ID ''x'') (Constant ''int'' ''1'')) = Inr (Typed IntType)
   \<and> visit example_scope (BinaryOp ''<'' (ID ''x'') (Constant ''int'' ''1'')) = Inr (Typed BoolType)
   \<and> visit example_scope (BinaryOp ''&&'' (ID ''x'') (Constant ''int'' ''1'')) = Inl (SemanticError 7)
   \<and> visit example_scope (BinaryOp ''+'' (ID ''x'') (Constant ''float'' ''1.0'')) = Inl (SemanticError 6)"
proof -
  have f: "visit example_scope (Constant ''float'' ''1.0'') = Inr (Typed FloatType)"
    by (simp add: visit_Constant_def typemap_def)
  note t = binaryop_typing[THEN conjunct1, rule_format]
  have 1: "visit example_scope (BinaryOp ''+'' (ID ''x'') (Constant ''int'' ''1'')) = Inr (Typed IntType)"
    by (subst t[OF example_x example_one]) simp
  have 2: "visit example_scope (BinaryOp ''<'' (ID ''x'') (Constant ''int'' ''1'')) = Inr (Typed BoolType)"
    by (subst t[OF example_x example_one]) simp
  have 3: "visit example_scope (BinaryOp ''&&'' (ID ''x'') (Constant ''int'' ''1'')) = Inl (SemanticError 7)"
    by (subst t[OF example_x example_one]) simp
  have 4: "visit example_scope (BinaryOp ''+'' (ID ''x'') (Constant ''float'' ''1.0'')) = Inl (SemanticError 6)"
    by (subst t[OF example_x f]) simp
  from example_x example_one 1 2 3 4 show ?thesis by (intro conjI)
qed

text \<open>
  The two guarded checks of \<open>visit_Print\<close>: the type of an identifier is tested with error
  22, the callee's type of a call with error 21, against the renderings \<open>int\<close>, \<open>char\<close>,
  \<open>float\<close>, \<open>string\<close> and \<open>char[]\<close>. An argument of any other kind reaches neither test.
\<close>

lemma print_argument_check:
  "(visit st (ID name) = Inr (Typed t) \<longrightarrow>
      visit_Print st (Some (ID name)) =
        (if uc_str t \<in> print_types then Inr () else Inl (SemanticError 22)))
   \<and> (visit st (FuncCall d arguments) = Inr a \<longrightarrow>
        (\<exists>t. visit st d = Inr (Typed t) \<and>
             visit_Print st (Some (FuncCall d arguments)) =
               (if uc_str t \<in> print_types then Inr () else Inl (SemanticError 21))))
   \<and> ((\<forall>n. e \<noteq> ID n) \<longrightarrow> (\<forall>f as. e \<noteq> FuncCall f as) \<longrightarrow> visit st e = Inr a \<longrightarrow>
        visit_Print st (Some e) = Inr ())"
proof (intro conjI impI)
  assume "visit st (ID name) = Inr (Typed t)"
  then show "visit_Print st (Some (ID name)) =
        (if uc_str t \<in> print_types then Inr () else Inl (SemanticError 22))"
    by (simp add: visit_Print_def uc_type_of_def)
next
  assume acc: "visit st (FuncCall d arguments) = Inr a"
  then obtain t where t: "uc_type_of (visit st d) = Inr t"
    by (auto simp: visit_FuncCall_def split: sum.splits option.splits)
  then have v: "visit st d = Inr (Typed t)"
    by (auto simp: uc_type_of_def split: sum.splits annot.splits)
  have "visit_Print st (Some (FuncCall d arguments)) =
          (if uc_str t \<in> print_types then Inr () else Inl (SemanticError 21))"
    using acc t unfolding visit_Print_def by simp
  then show "\<exists>t. visit st d = Inr (Typed t) \<and>
             visit_Print st (Some (FuncCall d arguments)) =
               (if uc_str t \<in> print_types then Inr () else Inl (SemanticError 21))"
    using v by blast
next
  assume "\<forall>n. e \<noteq> ID n" and "\<forall>f as. e \<noteq> FuncCall f as" and "visit st e = Inr a"
  then show "visit_Print st (Some e) = Inr ()"
    unfolding visit_Print_def by (cases e) simp_all
qed

lemma example_b: "visit example_scope (ID ''b'') = Inr (Typed BoolType)"
  by (simp add: visit_ID_def declared_def lookup_def example_scope_def)

lemma example_x2: "visit example_scope (ID ''x'') = Inr (Typed IntType)"
  by (simp add: visit_ID_def declared_def lookup_def example_scope_def)

lemma example_g: "visit example_scope (FuncCall (ID ''g'') None) = Inr (Typed VoidType)"
  by (simp add: visit_FuncCall_def visit_ID_def declared_def lookup_def lookup_args_def
        uc_type_of_def example_scope_def)

lemma example_sum:
  "visit example_scope (BinaryOp ''+'' (ID ''x'') (ID ''x'')) = Inr (Typed IntType)"
  using example_x2 by (simp add: visit_BinaryOp_def uc_type_of_def)

lemma print_argument_check_examples:
  "visit example_scope (ID ''x'') = Inr (Typed IntType)
   \<and> visit_Print example_scope (Some (ID ''x'')) = Inr ()
   \<and> visit example_scope (ID ''b'') = Inr (Typed BoolType)
   \<and> visit_Print example_scope (Some (ID ''b'')) = Inl (SemanticError 22)
   \<and> visit example_scope (FuncCall (ID ''g'') None) = Inr (Typed VoidType)
   \<and> visit_Print example_scope (Some (FuncCall (ID ''g'') None)) = Inl (SemanticError 21)
   \<and> visit example_scope (BinaryOp ''+'' (ID ''x'') (ID ''x'')) = Inr (Typed IntType)
   \<and> visit_Print example_scope (Some (BinaryOp ''+'' (ID ''x'') (ID ''x''))) = Inr ()"
proof -
  note c1 = print_argument_check[THEN conjunct1, rule_format]
  note c2 = print_argument_check[THEN conjunct2, THEN conjunct1, rule_format]
  note c3 = print_argument_check[THEN conjunct2, THEN conjunct2, rule_format]
  have 1: "visit_Print example_scope (Some (ID ''x'')) = Inr ()"
    by (subst c1[OF example_x2]) (simp add: print_types_def)
  have 2: "visit_Print example_scope (Some (ID ''b'')) = Inl (SemanticError 22)"
    by (subst c1[OF example_b]) (simp add: print_types_def)
  have g: "visit example_scope (ID ''g'') = Inr (Typed VoidType)"
    by (simp add: visit_ID_def declared_def lookup_def example_scope_def)
  have 3: "visit_Print example_scope (Some (FuncCall (ID ''g'') None)) = Inl (SemanticError 21)"
    using c2[OF example_g] g by (auto simp: print_types_def)
  have 4: "visit_Print example_scope (Some (BinaryOp ''+'' (ID ''x'') (ID ''x''))) = Inr ()"
    by (rule c3[OF _ _ example_sum]) simp_all
  from example_x2 1 example_b 2 example_g 3 example_sum 4 show ?thesis by (intro conjI)
qed

text \<open>
  C9. A \<open>print\<close> argument is to be accepted only when its type is basic or a string, with
  error 21 or 22 otherwise. With \<^verbatim>\<open>int a[2][3];\<close> in scope, \<^verbatim>\<open>print(a);\<close> is rejected with
  error 22 by the identifier test, while \<^verbatim>\<open>print(a[1]);\<close>, whose argument has the array type
  \<open>int[3]\<close>, is an array reference, reaches neither test and is accepted.
\<close>

theorem print_array_unchecked:
  "visit example_scope (ArrayRef (ID ''a'') (Constant ''int'' ''1''))
     = Inr (Typed (ArrayType IntType (Some (StrSize ''3''))))
   \<and> uc_str (ArrayType IntType (Some (StrSize ''3''))) = ''int[3]''
   \<and> ''int[3]'' \<notin> print_types
   \<and> visit_Print example_scope (Some (ArrayRef (ID ''a'') (Constant ''int'' ''1''))) = Inr ()
   \<and> visit_Print example_scope (Some (ID ''a'')) = Inl (SemanticError 22)"
  by (simp add: visit_Print_def visit_ArrayRef_def visit_ID_def visit_Constant_def typemap_def
        declared_def lookup_def uc_type_of_def example_scope_def print_types_def)

end
